theory Spec2Isabelle
  imports Complex_Main "HOL-Library.AList" "HOL-Library.Option_ord" "HOL-Library.Sublist"
begin

section \<open>Data model of the CRF engine\<close>

text \<open>
  The engine is the class \<open>CRF\<close> (the second module of \<open>src/src/ThaiUtils.js\<close>) and its
  caller \<open>ThaiSyllableSegmenter\<close> (the second module of \<open>src/src/FeatureExtractor.js\<close>).

  Conventions of the embedding.
  \<^item> A JavaScript number is a \<open>real\<close>: the finite doubles, idealised (no rounding, no
    overflow, no NaN). The literal \<open>-Infinity\<close>, which the code uses as the start value of
    a maximum and of the previous log-likelihood, is \<open>None\<close> of \<open>real option\<close>, the least
    element of the order on options.
  \<^item> A \<open>Float64Array\<close> is a \<open>real list\<close>. A write past its end is ignored by JavaScript,
    as \<open>xs[i := v]\<close> does. A read past its end gives \<open>undefined\<close> in JavaScript and turns
    the arithmetic into NaN: such reads are outside the idealisation, and the lemmas below
    show that they do not happen on a model that \<open>train\<close> built.
  \<^item> A JavaScript \<open>Map\<close> with string keys is an association list in insertion order with
    distinct keys; \<open>Map.get\<close> is \<open>map_of\<close>, \<open>Map.set\<close> is \<open>AList.update\<close> (it replaces
    the value of a present key in place and appends an absent one).
  \<^item> A feature or label string is a \<open>string\<close>; a position is the list of its active
    features, a sequence the list of its positions.
  \<^item> An exception is a value \<open>Inl e\<close> of a sum type.
\<close>

type_synonym feature = string
type_synonym position = "feature list"
type_synonym sequence = "position list"
type_synonym 'v jsmap = "(string \<times> 'v) list"

datatype error =
    ModelNotTrained          \<comment> \<open>\<open>Error('Model not trained yet')\<close>\<close>
  | NoValidTrainingSamples   \<comment> \<open>\<open>Error('No valid training samples found')\<close>\<close>
  | CharIndexOutOfBounds     \<comment> \<open>\<open>Error('Character index out of bounds: ...')\<close>\<close>
  | CharacterMismatch        \<comment> \<open>\<open>Error('Character mismatch at ...')\<close>\<close>
  | TypeError                \<comment> \<open>a property read on \<open>undefined\<close> or \<open>null\<close>; \<open>new Map\<close> on a
                                 value that is not iterable or on an item that is not an object\<close>
  | RangeError               \<comment> \<open>\<open>new Float64Array\<close> on a length that is not allowed\<close>

record crf =
  learningRate :: real
  maxIterations :: nat
  regularization :: real
  tolerance :: real
  weights :: "real list option"   \<comment> \<open>\<open>None\<close> is \<open>null\<close>\<close>
  featureMap :: "nat jsmap"
  labelMap :: "nat jsmap"
  numFeatures :: nat
  numLabels :: nat

subsection \<open>The vocabulary builder\<close>

definition Map_has :: "'v jsmap \<Rightarrow> string \<Rightarrow> bool" where
  "Map_has m k = (map_of m k \<noteq> None)"

definition Map_set :: "'v jsmap \<Rightarrow> string \<Rightarrow> 'v \<Rightarrow> 'v jsmap" where
  "Map_set m k v = AList.update k v m"

text \<open>The body of the innermost loops of \<open>_buildMappings\<close>:
  \<^verbatim>\<open>if (!map.has(key)) { map.set(key, idx++); }\<close>\<close>

fun assign_id :: "nat jsmap \<times> nat \<Rightarrow> string \<Rightarrow> nat jsmap \<times> nat" where
  "assign_id (m, idx) key =
     (if \<not> Map_has m key then (Map_set m key idx, idx + 1) else (m, idx))"

definition buildMappings :: "crf \<Rightarrow> sequence list \<Rightarrow> string list list \<Rightarrow> crf" where
  "buildMappings c sequences labels =
     (let (lm, labelIdx) =
            foldl (\<lambda>st labelSeq. foldl assign_id st labelSeq) ([], 0) labels;
          (fm, featureIdx) =
            foldl (\<lambda>st sequence. foldl (\<lambda>st features. foldl assign_id st features) st sequence)
              ([], 0) sequences
      in c\<lparr>featureMap := fm, labelMap := lm, numFeatures := featureIdx, numLabels := labelIdx\<rparr>)"

text \<open>The strings of a list in the order of their first occurrence.\<close>

definition first_seen :: "string list \<Rightarrow> string list" where
  "first_seen xs = rev (remdups (rev xs))"

definition dense_ids :: "string list \<Rightarrow> nat jsmap" where
  "dense_ids ks = zip ks [0..<length ks]"


subsection \<open>Construction\<close>

record crf_options =
  o_learningRate :: "real option"
  o_maxIterations :: "nat option"
  o_regularization :: "real option"
  o_tolerance :: "real option"

text \<open>\<^verbatim>\<open>options.x || d\<close>: the default replaces an absent option and the falsy number 0.\<close>

definition or_default :: "'a::zero option \<Rightarrow> 'a \<Rightarrow> 'a" where
  "or_default v d = (case v of None \<Rightarrow> d | Some x \<Rightarrow> if x = 0 then d else x)"

definition new_CRF :: "crf_options \<Rightarrow> crf" where
  "new_CRF options =
     \<lparr>learningRate = or_default (o_learningRate options) (1 / 10),
      maxIterations = or_default (o_maxIterations options) 100,
      regularization = or_default (o_regularization options) (1 / 100),
      tolerance = or_default (o_tolerance options) (1 / 1000000),
      weights = None, featureMap = [], labelMap = [], numFeatures = 0, numLabels = 0\<rparr>"

subsection \<open>The scoring functions\<close>

text \<open>
  \<open>_computeScore\<close> and \<open>_computeTransitionScore\<close> are private and run only after
  \<open>this.weights\<close> has been set (\<open>predict\<close> checks it, \<open>train\<close> allocates it), so the
  weight array is read as \<open>the (weights c)\<close>.
\<close>

definition computeScore :: "crf \<Rightarrow> position \<Rightarrow> nat \<Rightarrow> real" where
  "computeScore c features label =
     foldl (\<lambda>score feature.
              case map_of (featureMap c) feature of
                None \<Rightarrow> score
              | Some featureIdx \<Rightarrow>
                  score + the (weights c) ! (featureIdx * numLabels c + label))
       0 features"

text \<open>The decimal numeral of a label id, as the template literal prints it (label ids
  are far below \<open>10^21\<close>, where JavaScript changes to exponent notation).\<close>

function show_nat :: "nat \<Rightarrow> string" where
  "show_nat n =
     (if n < 10 then [''0123456789'' ! n]
      else show_nat (n div 10) @ [''0123456789'' ! (n mod 10)])"
  by pat_completeness auto
termination
  by (relation "measure (\<lambda>n. n)") auto

declare show_nat.simps [simp del]

definition transitionFeature :: "nat \<Rightarrow> nat \<Rightarrow> feature" where
  "transitionFeature fromLabel toLabel =
     ''TRANS_'' @ show_nat fromLabel @ ''_'' @ show_nat toLabel"

definition computeTransitionScore :: "crf \<Rightarrow> nat \<Rightarrow> nat \<Rightarrow> real" where
  "computeTransitionScore c fromLabel toLabel =
     (case map_of (featureMap c) (transitionFeature fromLabel toLabel) of
        Some featureIdx \<Rightarrow> the (weights c) ! (featureIdx * numLabels c + toLabel)
      | None \<Rightarrow> 0)"

subsection \<open>Viterbi decoding\<close>

text \<open>
  The decoder is written over the two scoring functions \<open>sc\<close> (emission) and \<open>tr\<close>
  (transition) and the number of labels \<open>L\<close>; \<open>predict\<close> passes the model's own.
  A cell of \<open>dp\<close> is a \<open>real option\<close>, \<open>None\<close> being \<open>-Infinity\<close>.

  The scan over the previous label \<open>k\<close> for one cell \<open>(i, j)\<close>:
  \<^verbatim>\<open>let maxScore = -Infinity; let bestPrev = 0;
  for (k ...) { const score = dp[i-1][k] + trans(k, j) + score(sequence[i], j);
                if (score > maxScore) { maxScore = score; bestPrev = k; } }\<close>
\<close>

definition candidate ::
  "(position \<Rightarrow> nat \<Rightarrow> real) \<Rightarrow> (nat \<Rightarrow> nat \<Rightarrow> real) \<Rightarrow> real option list \<Rightarrow> position \<Rightarrow>
   nat \<Rightarrow> nat \<Rightarrow> real option" where
  "candidate sc tr prev pos j k = map_option (\<lambda>d. d + tr k j + sc pos j) (prev ! k)"

definition scan_step ::
  "(nat \<Rightarrow> real option) \<Rightarrow> real option \<times> nat \<Rightarrow> nat \<Rightarrow> real option \<times> nat" where
  "scan_step cand st k =
     (case st of (maxScore, bestPrev) \<Rightarrow>
        if cand k > maxScore then (cand k, k) else (maxScore, bestPrev))"

definition best_prev ::
  "(position \<Rightarrow> nat \<Rightarrow> real) \<Rightarrow> (nat \<Rightarrow> nat \<Rightarrow> real) \<Rightarrow> nat \<Rightarrow> real option list \<Rightarrow> position \<Rightarrow>
   nat \<Rightarrow> real option \<times> nat" where
  "best_prev sc tr L prev pos j = foldl (scan_step (candidate sc tr prev pos j)) (None, 0) [0..<L]"

text \<open>The forward pass over the positions \<open>1 .. n-1\<close>: each step gives the row of \<open>dp\<close>
  and the row of \<open>path\<close> of one position.\<close>

fun viterbi_forward ::
  "(position \<Rightarrow> nat \<Rightarrow> real) \<Rightarrow> (nat \<Rightarrow> nat \<Rightarrow> real) \<Rightarrow> nat \<Rightarrow> real option list \<Rightarrow>
   position list \<Rightarrow> (real option list \<times> nat list) list" where
  "viterbi_forward sc tr L prev [] = []"
| "viterbi_forward sc tr L prev (pos # rest) =
     (let cells = map (best_prev sc tr L prev pos) [0..<L]
      in (map fst cells, map snd cells) # viterbi_forward sc tr L (map fst cells) rest)"

definition dp_table ::
  "(position \<Rightarrow> nat \<Rightarrow> real) \<Rightarrow> (nat \<Rightarrow> nat \<Rightarrow> real) \<Rightarrow> nat \<Rightarrow> sequence \<Rightarrow> real option list list" where
  "dp_table sc tr L sequence =
     (let dp0 = map (\<lambda>j. Some (sc (hd sequence) j)) [0..<L]
      in dp0 # map fst (viterbi_forward sc tr L dp0 (tl sequence)))"

definition path_table ::
  "(position \<Rightarrow> nat \<Rightarrow> real) \<Rightarrow> (nat \<Rightarrow> nat \<Rightarrow> real) \<Rightarrow> nat \<Rightarrow> sequence \<Rightarrow> nat list list" where
  "path_table sc tr L sequence =
     (let dp0 = map (\<lambda>j. Some (sc (hd sequence) j)) [0..<L]
      in replicate L 0 # map snd (viterbi_forward sc tr L dp0 (tl sequence)))"

text \<open>
  The best final state:
  \<^verbatim>\<open>let bestFinal = 0; let bestScore = dp[n-1][0];
  for (j = 1 ...) if (dp[n-1][j] > bestScore) { bestScore = dp[n-1][j]; bestFinal = j; }\<close>
  With no label at all the loop does not run and \<open>bestScore\<close> (then \<open>undefined\<close>) is
  never compared.
\<close>

definition final_step :: "real option list \<Rightarrow> real option \<times> nat \<Rightarrow> nat \<Rightarrow> real option \<times> nat" where
  "final_step row st j =
     (case st of (bestScore, bestFinal) \<Rightarrow>
        if row ! j > bestScore then (row ! j, j) else (bestScore, bestFinal))"

definition best_final :: "nat \<Rightarrow> real option list \<Rightarrow> nat" where
  "best_final L row =
     (case row of
        [] \<Rightarrow> 0
      | d0 # _ \<Rightarrow> snd (foldl (final_step row) (d0, 0) [1..<L]))"

text \<open>An array read that JavaScript answers with \<open>undefined\<close> past the end.\<close>

definition elem_at :: "'a list \<Rightarrow> nat \<Rightarrow> 'a option" where
  "elem_at xs i = (if i < length xs then Some (xs ! i) else None)"

text \<open>
  Backtracking, \<^verbatim>\<open>result[i] = path[i + 1][result[i + 1]]\<close> for \<open>i = n-2 .. 0\<close>: the
  function takes the rows \<open>path[n-1], ..., path[1]\<close> and the state of the later position
  and returns \<open>result[n-1], ..., result[0]\<close>. An entry is \<open>None\<close> where JavaScript has
  \<open>undefined\<close>.
\<close>

fun backtrack :: "nat list list \<Rightarrow> nat option \<Rightarrow> nat option list" where
  "backtrack [] r = [r]"
| "backtrack (row # rows) r = r # backtrack rows (Option.bind r (elem_at row))"

definition viterbi ::
  "(position \<Rightarrow> nat \<Rightarrow> real) \<Rightarrow> (nat \<Rightarrow> nat \<Rightarrow> real) \<Rightarrow> nat \<Rightarrow> sequence \<Rightarrow> nat option list" where
  "viterbi sc tr L sequence =
     (let dp = dp_table sc tr L sequence;
          path = path_table sc tr L sequence;
          bestFinal = best_final L (last dp)
      in rev (backtrack (rev (tl path)) (Some bestFinal)))"

text \<open>\<^verbatim>\<open>Array.from(this.labelMap.entries()).sort((a, b) => a[1] - b[1]).map(e => e[0])\<close>;
  the sort is stable, as \<open>sort_key\<close> is.\<close>

definition labelNames :: "crf \<Rightarrow> string list" where
  "labelNames c = map fst (sort_key snd (labelMap c))"

definition decode ::
  "(position \<Rightarrow> nat \<Rightarrow> real) \<Rightarrow> (nat \<Rightarrow> nat \<Rightarrow> real) \<Rightarrow> crf \<Rightarrow> sequence \<Rightarrow>
   error + string option list" where
  "decode sc tr c sequence =
     (if weights c = None then Inl ModelNotTrained
      else if length sequence = 0 then Inr []
      else Inr (map (\<lambda>idx. Option.bind idx (elem_at (labelNames c)))
                  (viterbi sc tr (numLabels c) sequence)))"

definition predict :: "crf \<Rightarrow> sequence \<Rightarrow> error + string option list" where
  "predict c sequence = decode (computeScore c) (computeTransitionScore c) c sequence"

subsection \<open>Forward-backward\<close>

text \<open>\<^verbatim>\<open>let sum = 0; for (k ...) sum += f(k);\<close>\<close>

definition loop_sum :: "nat \<Rightarrow> (nat \<Rightarrow> real) \<Rightarrow> real" where
  "loop_sum L f = foldl (\<lambda>sum k. sum + f k) 0 [0..<L]"

fun forward_pass ::
  "(position \<Rightarrow> nat \<Rightarrow> real) \<Rightarrow> (nat \<Rightarrow> nat \<Rightarrow> real) \<Rightarrow> nat \<Rightarrow> real list \<Rightarrow> position list \<Rightarrow>
   real list list" where
  "forward_pass sc tr L prev [] = []"
| "forward_pass sc tr L prev (pos # rest) =
     (let row = map (\<lambda>j. loop_sum L (\<lambda>k. prev ! k * exp (tr k j + sc pos j))) [0..<L]
      in row # forward_pass sc tr L row rest)"

text \<open>The backward pass runs from the last position down; the argument is the list of
  the positions \<open>1 .. n-1\<close>, the result the rows \<open>beta[0], ..., beta[n-1]\<close>.\<close>

fun backward_pass ::
  "(position \<Rightarrow> nat \<Rightarrow> real) \<Rightarrow> (nat \<Rightarrow> nat \<Rightarrow> real) \<Rightarrow> nat \<Rightarrow> position list \<Rightarrow> real list list" where
  "backward_pass sc tr L [] = [replicate L 1]"
| "backward_pass sc tr L (pos # rest) =
     (let later = backward_pass sc tr L rest
      in map (\<lambda>j. loop_sum L (\<lambda>k. hd later ! k * exp (tr j k + sc pos k))) [0..<L] # later)"

text \<open>On the empty sequence \<open>alpha[0]\<close> (or, with no label, \<open>alpha[n - 1]\<close>) is
  \<open>undefined\<close> and the read of its property throws.\<close>

definition forwardBackward_with ::
  "(position \<Rightarrow> nat \<Rightarrow> real) \<Rightarrow> (nat \<Rightarrow> nat \<Rightarrow> real) \<Rightarrow> nat \<Rightarrow> sequence \<Rightarrow>
   error + real list list \<times> real list list \<times> real" where
  "forwardBackward_with sc tr L sequence =
     (case sequence of
        [] \<Rightarrow> Inl TypeError
      | pos0 # rest \<Rightarrow>
          (let alpha0 = map (\<lambda>j. exp (sc pos0 j)) [0..<L];
               alpha = alpha0 # forward_pass sc tr L alpha0 rest;
               beta = backward_pass sc tr L rest;
               Z = foldl (\<lambda>sum val. sum + val) 0 (last alpha)
           in Inr (alpha, beta, Z)))"

definition forwardBackward ::
  "crf \<Rightarrow> sequence \<Rightarrow> error + real list list \<times> real list list \<times> real" where
  "forwardBackward c sequence =
     forwardBackward_with (computeScore c) (computeTransitionScore c) (numLabels c) sequence"

subsection \<open>Training\<close>

text \<open>
  The id of the gold label of position \<open>i\<close>, \<^verbatim>\<open>this.labelMap.get(labels[i])\<close>. Every
  label of the corpus is in the label map that \<open>_buildMappings\<close> built from it (lemma
  \<open>gold_label_in_vocabulary\<close>). Where the label sequence is shorter than the feature
  sequence JavaScript goes on with \<open>undefined\<close> (the log-likelihood becomes NaN); that
  is outside the idealisation, and the statement about the training loop is made for
  corpora where it does not happen (\<open>well_shaped\<close>).
\<close>

definition goldLabel :: "crf \<Rightarrow> string list \<Rightarrow> nat \<Rightarrow> nat" where
  "goldLabel c labels i = the (map_of (labelMap c) (labels ! i))"

definition computeSequenceLogLikelihood :: "crf \<Rightarrow> sequence \<Rightarrow> string list \<Rightarrow> real \<Rightarrow> real" where
  "computeSequenceLogLikelihood c sequence labels Z =
     foldl (\<lambda>score i.
              let labelIdx = goldLabel c labels i;
                  score = score + computeScore c (sequence ! i) labelIdx
              in if i > 0
                 then score + computeTransitionScore c (goldLabel c labels (i - 1)) labelIdx
                 else score)
       0 [0..<length sequence] - ln Z"

text \<open>\<^verbatim>\<open>gradients[featureIdx * numLabels + j] += d\<close> for every feature of the position
  that is in the vocabulary.\<close>

definition bump_features :: "crf \<Rightarrow> position \<Rightarrow> nat \<Rightarrow> real \<Rightarrow> real list \<Rightarrow> real list" where
  "bump_features c features j d gradients =
     foldl (\<lambda>g feature.
              case map_of (featureMap c) feature of
                None \<Rightarrow> g
              | Some featureIdx \<Rightarrow>
                  g[featureIdx * numLabels c + j := g ! (featureIdx * numLabels c + j) + d])
       gradients features"

definition updateGradients ::
  "crf \<Rightarrow> sequence \<Rightarrow> string list \<Rightarrow> real list list \<Rightarrow> real list list \<Rightarrow> real \<Rightarrow> real list \<Rightarrow>
   real list" where
  "updateGradients c sequence labels alpha beta Z gradients =
     foldl (\<lambda>g i.
              let labelIdx = goldLabel c labels i;
                  g = foldl (\<lambda>g j.
                        let marginal = (alpha ! i ! j * beta ! i ! j) / Z
                        in bump_features c (sequence ! i) j (- marginal) g)
                      g [0..<numLabels c]
              in bump_features c (sequence ! i) labelIdx 1 g)
       gradients [0..<length sequence]"

text \<open>The pass over the corpus of one iteration. \<open>labels[i]\<close> is \<open>undefined\<close> when there
  are fewer label sequences than feature sequences, and its first read throws.\<close>

fun corpus_pass ::
  "crf \<Rightarrow> sequence list \<Rightarrow> string list list \<Rightarrow> real \<times> real list \<Rightarrow> error + real \<times> real list" where
  "corpus_pass c [] labels acc = Inr acc"
| "corpus_pass c (sequence # sequences) labels (logLikelihood, gradients) =
     (case forwardBackward c sequence of
        Inl e \<Rightarrow> Inl e
      | Inr (alpha, beta, Z) \<Rightarrow>
          (case labels of
             [] \<Rightarrow> Inl TypeError
           | labelSeq # labels' \<Rightarrow>
               corpus_pass c sequences labels'
                 (logLikelihood + computeSequenceLogLikelihood c sequence labelSeq Z,
                  updateGradients c sequence labelSeq alpha beta Z gradients)))"

definition regularize :: "crf \<Rightarrow> real list \<Rightarrow> real \<times> real list \<Rightarrow> real \<times> real list" where
  "regularize c w acc =
     foldl (\<lambda>(logLikelihood, gradients) j.
              (logLikelihood - regularization c * w ! j * w ! j / 2,
               gradients[j := gradients ! j - regularization c * w ! j]))
       acc [0..<length w]"

definition updateWeights :: "crf \<Rightarrow> real list \<Rightarrow> real list \<Rightarrow> real list" where
  "updateWeights c gradients w =
     foldl (\<lambda>w j. w[j := w ! j + learningRate c * gradients ! j]) w [0..<length w]"

text \<open>One iteration of the loop of \<open>train\<close>, up to the convergence check: the new state
  and the log-likelihood of the iteration.\<close>

definition train_iteration :: "crf \<Rightarrow> sequence list \<Rightarrow> string list list \<Rightarrow> error + crf \<times> real" where
  "train_iteration c sequences labels =
     (let w = the (weights c)
      in case corpus_pass c sequences labels (0, replicate (length w) 0) of
           Inl e \<Rightarrow> Inl e
         | Inr acc \<Rightarrow>
             (let (logLikelihood, gradients) = regularize c w acc
              in Inr (c\<lparr>weights := Some (updateWeights c gradients w)\<rparr>, logLikelihood)))"

text \<open>\<^verbatim>\<open>Math.abs(logLikelihood - prevLogLikelihood) < this.tolerance\<close>, false while the
  previous value is \<open>-Infinity\<close>.\<close>

definition converged :: "crf \<Rightarrow> real \<Rightarrow> real option \<Rightarrow> bool" where
  "converged c logLikelihood prevLogLikelihood =
     (case prevLogLikelihood of
        None \<Rightarrow> False
      | Some prev \<Rightarrow> \<bar>logLikelihood - prev\<bar> < tolerance c)"

text \<open>The \<open>for\<close> loop over \<open>iter\<close>, by the number of iterations it has left.\<close>

fun train_loop ::
  "nat \<Rightarrow> crf \<Rightarrow> sequence list \<Rightarrow> string list list \<Rightarrow> real option \<Rightarrow> error + crf" where
  "train_loop 0 c sequences labels prevLogLikelihood = Inr c"
| "train_loop (Suc left) c sequences labels prevLogLikelihood =
     (case train_iteration c sequences labels of
        Inl e \<Rightarrow> Inl e
      | Inr (c', logLikelihood) \<Rightarrow>
          if converged c' logLikelihood prevLogLikelihood then Inr c'
          else train_loop left c' sequences labels (Some logLikelihood))"

definition CRF_train :: "crf \<Rightarrow> sequence list \<Rightarrow> string list list \<Rightarrow> error + crf" where
  "CRF_train c sequences labels =
     (let c = buildMappings c sequences labels;
          c = c\<lparr>weights := Some (replicate (numFeatures c * numLabels c) 0)\<rparr>
      in train_loop (maxIterations c) c sequences labels None)"

subsection \<open>Serialisation\<close>

record config_data =
  d_learningRate :: real
  d_maxIterations :: nat
  d_regularization :: real
  d_tolerance :: real

text \<open>
  The value that \<open>loadModel\<close> reads is declared \<open>any\<close>: what the caller passes is the
  \<open>crf\<close> property of a parsed JSON file. The fields \<open>weights\<close>, \<open>featureMap\<close> and
  \<open>labelMap\<close> go to the constructors \<open>Float64Array\<close> and \<open>Map\<close>, which accept some values
  and throw on others, so the model keeps the values apart by what the constructors do
  with them.
  \<^item> \<open>weights\<close>: missing (\<open>undefined\<close> or \<open>null\<close>), an array of numbers, or a number
    (an integer), which \<open>new Float64Array\<close> takes as a length.
  \<^item> \<open>featureMap\<close>, \<open>labelMap\<close>: missing, a value that is not iterable (a number, a
    boolean, a plain object), or an array (or other iterable) whose items are entries
    \<open>[string, id]\<close> or values that are not objects (numbers, strings, \<open>null\<close>).
  \<open>numFeatures\<close> and \<open>numLabels\<close> are numbers, and \<open>config\<close>, when present, is a record of
  the four hyperparameters.
\<close>

datatype weights_value =
    W_undefined            \<comment> \<open>\<open>undefined\<close> or \<open>null\<close>\<close>
  | W_array "real list"    \<comment> \<open>an array of numbers\<close>
  | W_number int           \<comment> \<open>a number\<close>

datatype entries_item =
    Entry string nat       \<comment> \<open>the two-element array \<open>[key, id]\<close>\<close>
  | NotAnObject            \<comment> \<open>a number, a string, a boolean, \<open>null\<close>\<close>

datatype map_value =
    M_undefined                  \<comment> \<open>\<open>undefined\<close> or \<open>null\<close>\<close>
  | M_array "entries_item list"  \<comment> \<open>an array of items\<close>
  | M_not_iterable               \<comment> \<open>a number, a boolean, a plain object\<close>

record model_data =
  d_weights :: weights_value
  d_featureMap :: map_value
  d_labelMap :: map_value
  d_numFeatures :: nat
  d_numLabels :: nat
  d_config :: "config_data option"

text \<open>\<open>Array.from(map.entries())\<close>: the entries of a map as an array of two-element
  arrays.\<close>

definition entries :: "nat jsmap \<Rightarrow> entries_item list" where
  "entries m = map (\<lambda>(k, v). Entry k v) m"

text \<open>\<open>Array.from(null)\<close> throws.\<close>

definition saveModel :: "crf \<Rightarrow> error + model_data" where
  "saveModel c =
     (case weights c of
        None \<Rightarrow> Inl TypeError
      | Some w \<Rightarrow>
          Inr \<lparr>d_weights = W_array w,
               d_featureMap = M_array (entries (featureMap c)),
               d_labelMap = M_array (entries (labelMap c)),
               d_numFeatures = numFeatures c,
               d_numLabels = numLabels c,
               d_config = Some \<lparr>d_learningRate = learningRate c,
                                 d_maxIterations = maxIterations c,
                                 d_regularization = regularization c,
                                 d_tolerance = tolerance c\<rparr>\<rparr>)"

text \<open>
  \<open>new Float64Array(x)\<close>: length 0 for \<open>undefined\<close> and \<open>null\<close>; a copy of an array of
  numbers; for a number \<open>n\<close>, \<open>n\<close> zeros, and a \<open>RangeError\<close> when \<open>n\<close> is negative or
  above \<open>2^53 - 1\<close>. (Below that bound an engine still refuses, with the same error, a
  length that it cannot allocate; nothing below depends on a non-negative number.)
\<close>

definition new_Float64Array :: "weights_value \<Rightarrow> error + real list" where
  "new_Float64Array x =
     (case x of
        W_undefined \<Rightarrow> Inr []
      | W_array xs \<Rightarrow> Inr xs
      | W_number n \<Rightarrow>
          if n < 0 \<or> n > 2 ^ 53 - 1 then Inl RangeError else Inr (replicate (nat n) 0))"

text \<open>
  \<open>new Map(x)\<close>: empty for \<open>undefined\<close> and \<open>null\<close>; a \<open>TypeError\<close> for a value that
  is not iterable; otherwise the items are taken in their order, an entry is set, and an
  item that is not an object throws a \<open>TypeError\<close> (the map under construction is lost).
\<close>

fun add_entries :: "nat jsmap \<Rightarrow> entries_item list \<Rightarrow> error + nat jsmap" where
  "add_entries m [] = Inr m"
| "add_entries m (Entry k v # items) = add_entries (Map_set m k v) items"
| "add_entries m (NotAnObject # items) = Inl TypeError"

definition new_Map :: "map_value \<Rightarrow> error + nat jsmap" where
  "new_Map x =
     (case x of
        M_undefined \<Rightarrow> Inr []
      | M_array items \<Rightarrow> add_entries [] items
      | M_not_iterable \<Rightarrow> Inl TypeError)"

text \<open>
  \<open>loadModel\<close> assigns its fields one after the other, so an exception leaves the fields
  assigned before it with their new values: the result \<open>Inl (e, c')\<close> is the exception
  \<open>e\<close> with the model left as \<open>c'\<close>, the result \<open>Inr c'\<close> the normal return. The argument
  \<open>None\<close> is \<open>undefined\<close> or \<open>null\<close> (the caller passes \<open>modelData.crf\<close> of the parsed
  file), on which the first property read throws before anything is assigned.
\<close>

definition loadModel :: "crf \<Rightarrow> model_data option \<Rightarrow> (error \<times> crf) + crf" where
  "loadModel c modelData =
     (case modelData of
        None \<Rightarrow> Inl (TypeError, c)
      | Some d \<Rightarrow>
          (case new_Float64Array (d_weights d) of
             Inl e \<Rightarrow> Inl (e, c)
           | Inr w \<Rightarrow>
               (let c = c\<lparr>weights := Some w\<rparr>
                in case new_Map (d_featureMap d) of
                     Inl e \<Rightarrow> Inl (e, c)
                   | Inr fm \<Rightarrow>
                       (let c = c\<lparr>featureMap := fm\<rparr>
                        in case new_Map (d_labelMap d) of
                             Inl e \<Rightarrow> Inl (e, c)
                           | Inr lm \<Rightarrow>
                               (let c = c\<lparr>labelMap := lm,
                                          numFeatures := d_numFeatures d,
                                          numLabels := d_numLabels d\<rparr>
                                in case d_config d of
                                     None \<Rightarrow> Inr c
                                   | Some cfg \<Rightarrow>
                                       Inr (c\<lparr>learningRate := d_learningRate cfg,
                                              maxIterations := d_maxIterations cfg,
                                              regularization := d_regularization cfg,
                                              tolerance := d_tolerance cfg\<rparr>))))))"

subsection \<open>The segmenter's training entry point\<close>

text \<open>
  A JavaScript string of the text side is the list of its UTF-16 code units, a
  ``character'' of \<open>splitToCharacters\<close> a base unit with its combining marks.
  Unicode normalisation (\<open>String.prototype.normalize('NFC')\<close>) is a parameter \<open>nfc\<close>, and
  so is \<open>FeatureExtractor.extractFeatures\<close> (\<open>extractFeatures\<close>), which gives the feature
  strings of one position and throws nowhere: training uses one feature list per
  character and nothing else of it.
\<close>

type_synonym jsstring = "nat list"

definition zero_width :: "nat \<Rightarrow> bool" where
  "zero_width u = ((0x200B \<le> u \<and> u \<le> 0x200F) \<or> u = 0x2060 \<or> u = 0xFEFF)"

text \<open>\<open>ThaiUtils.normalize\<close> (the name \<open>normalize\<close> is taken in HOL).\<close>

definition normalize_text :: "(jsstring \<Rightarrow> jsstring) \<Rightarrow> jsstring \<Rightarrow> jsstring" where
  "normalize_text nfc text = filter (\<lambda>u. \<not> zero_width u) (nfc text)"

definition isCombiningMark :: "nat \<Rightarrow> bool" where
  "isCombiningMark code = ((0x0E31 \<le> code \<and> code \<le> 0x0E3A) \<or> (0x0E47 \<le> code \<and> code \<le> 0x0E4E))"

function splitToCharacters :: "jsstring \<Rightarrow> jsstring list" where
  "splitToCharacters [] = []"
| "splitToCharacters (u # us) =
     (u # takeWhile isCombiningMark us) # splitToCharacters (dropWhile isCombiningMark us)"
  by pat_completeness auto
termination
  by (relation "measure length") (auto simp: length_dropWhile_le less_Suc_eq_le)

definition extractSequenceFeatures ::
  "(jsstring \<Rightarrow> jsstring) \<Rightarrow> (jsstring list \<Rightarrow> nat \<Rightarrow> position) \<Rightarrow> jsstring \<Rightarrow>
   sequence \<times> jsstring list" where
  "extractSequenceFeatures nfc extractFeatures text =
     (let chars = splitToCharacters (normalize_text nfc text)
      in (map (extractFeatures chars) [0..<length chars], chars))"

text \<open>
  \<open>_syllablesToLabels\<close>. The labels are written at \<open>charIndex = 0, 1, 2, ...\<close> in turn,
  so the array filled so far is the list \<open>labels\<close>; the final \<open>while\<close> loop fills what is
  left with \<open>'I'\<close>.
\<close>

fun label_syllable ::
  "jsstring list \<Rightarrow> jsstring list \<Rightarrow> nat \<Rightarrow> string list \<times> nat \<Rightarrow> error + string list \<times> nat" where
  "label_syllable chars [] j st = Inr st"
| "label_syllable chars (syllableChar # syllableChars) j (labels, charIndex) =
     (if charIndex \<ge> length chars then Inl CharIndexOutOfBounds
      else if chars ! charIndex \<noteq> syllableChar then Inl CharacterMismatch
      else label_syllable chars syllableChars (j + 1)
             (labels @ [if j = 0 then ''B'' else ''I''], charIndex + 1))"

fun label_syllables ::
  "jsstring list \<Rightarrow> jsstring list \<Rightarrow> string list \<times> nat \<Rightarrow> error + string list \<times> nat" where
  "label_syllables chars [] st = Inr st"
| "label_syllables chars (syllable # syllables) st =
     (case label_syllable chars (splitToCharacters syllable) 0 st of
        Inl e \<Rightarrow> Inl e
      | Inr st' \<Rightarrow> label_syllables chars syllables st')"

definition syllablesToLabels :: "jsstring list \<Rightarrow> jsstring list \<Rightarrow> error + string list" where
  "syllablesToLabels chars syllables =
     (case label_syllables chars syllables ([], 0) of
        Inl e \<Rightarrow> Inl e
      | Inr (labels, charIndex) \<Rightarrow> Inr (labels @ replicate (length chars - charIndex) ''I''))"

text \<open>\<open>_prepareTrainingSample\<close>: \<open>None\<close> is the record of three \<open>null\<close>s that it
  returns, after a warning on the console, from the \<open>catch\<close> block and on a length
  mismatch.\<close>

definition prepareTrainingSample ::
  "(jsstring \<Rightarrow> jsstring) \<Rightarrow> (jsstring list \<Rightarrow> nat \<Rightarrow> position) \<Rightarrow> jsstring \<Rightarrow> jsstring list \<Rightarrow>
   (sequence \<times> jsstring list \<times> string list) option" where
  "prepareTrainingSample nfc extractFeatures text syllables =
     (let normalized = normalize_text nfc text;
          (features, chars) = extractSequenceFeatures nfc extractFeatures normalized
      in case syllablesToLabels chars syllables of
           Inl e \<Rightarrow> None
         | Inr labelSeq \<Rightarrow>
             if length labelSeq \<noteq> length chars then None
             else Some (features, chars, labelSeq))"

record segmenter =
  seg_crf :: crf
  isModelLoaded :: bool

text \<open>The constructor of the segmenter.\<close>

definition new_Segmenter :: "crf_options \<Rightarrow> segmenter" where
  "new_Segmenter options = \<lparr>seg_crf = new_CRF options, isModelLoaded = False\<rparr>"

definition collect_sample ::
  "(jsstring \<Rightarrow> jsstring) \<Rightarrow> (jsstring list \<Rightarrow> nat \<Rightarrow> position) \<Rightarrow>
   sequence list \<times> string list list \<Rightarrow> jsstring \<times> jsstring list \<Rightarrow>
   sequence list \<times> string list list" where
  "collect_sample nfc extractFeatures acc sample =
     (case acc of (sequences, labels) \<Rightarrow>
        (case prepareTrainingSample nfc extractFeatures (fst sample) (snd sample) of
           None \<Rightarrow> (sequences, labels)
         | Some (features, chars, labelSeq) \<Rightarrow> (sequences @ [features], labels @ [labelSeq])))"

text \<open>\<open>ThaiSyllableSegmenter.train\<close>; a sample is the pair of its \<open>text\<close> and its
  \<open>syllables\<close>.\<close>

definition Segmenter_train ::
  "(jsstring \<Rightarrow> jsstring) \<Rightarrow> (jsstring list \<Rightarrow> nat \<Rightarrow> position) \<Rightarrow> segmenter \<Rightarrow>
   (jsstring \<times> jsstring list) list \<Rightarrow> error + segmenter" where
  "Segmenter_train nfc extractFeatures seg trainingData =
     (let (sequences, labels) = foldl (collect_sample nfc extractFeatures) ([], []) trainingData
      in if length sequences = 0 then Inl NoValidTrainingSamples
         else case CRF_train (seg_crf seg) sequences labels of
                Inl e \<Rightarrow> Inl e
              | Inr c \<Rightarrow> Inr (seg\<lparr>seg_crf := c, isModelLoaded := True\<rparr>))"

subsection \<open>Notions used in the statements\<close>

text \<open>
  A model is \<open>consistent\<close> when its weight array has \<open>numFeatures * numLabels\<close>
  cells, every feature id is below \<open>numFeatures\<close>, the keys of both maps are distinct
  and the label ids are \<open>0, ..., numLabels - 1\<close> in the order of the map. Every model
  that \<open>train\<close> returns is consistent (lemma \<open>CRF_train_consistent\<close>).
\<close>

definition consistent :: "crf \<Rightarrow> bool" where
  "consistent c =
     ((case weights c of None \<Rightarrow> False | Some w \<Rightarrow> length w = numFeatures c * numLabels c)
      \<and> list_all (\<lambda>entry. snd entry < numFeatures c) (featureMap c)
      \<and> distinct (map fst (featureMap c))
      \<and> distinct (map fst (labelMap c))
      \<and> map snd (labelMap c) = [0..<numLabels c])"

text \<open>A corpus is \<open>well_shaped\<close> when every sequence has a label sequence, no sequence
  is empty and no label sequence is shorter than its sequence: then no step of \<open>train\<close>
  throws and every gold label is read inside its label sequence.\<close>

definition well_shaped :: "sequence list \<Rightarrow> string list list \<Rightarrow> bool" where
  "well_shaped sequences labels =
     (length sequences \<le> length labels
      \<and> list_all (\<lambda>(s, l). s \<noteq> [] \<and> length s \<le> length l) (zip sequences labels))"

text \<open>What one active feature adds to the score of a label.\<close>

definition contribution :: "crf \<Rightarrow> nat \<Rightarrow> feature \<Rightarrow> real" where
  "contribution c label feature =
     (case map_of (featureMap c) feature of
        None \<Rightarrow> 0
      | Some featureIdx \<Rightarrow> the (weights c) ! (featureIdx * numLabels c + label))"

text \<open>\<open>first_max f n b\<close>: among the indices below \<open>n\<close>, \<open>b\<close> is the lowest one at which
  \<open>f\<close> takes its greatest value.\<close>

definition first_max :: "(nat \<Rightarrow> real option) \<Rightarrow> nat \<Rightarrow> nat \<Rightarrow> bool" where
  "first_max f n b = (b < n \<and> (\<forall>k<n. f k \<le> f b) \<and> (\<forall>k<n. f k = f b \<longrightarrow> b \<le> k))"

text \<open>A feature string that has the form of a transition feature, \<open>TRANS_<from>_<to>\<close>
  for two label ids.\<close>

definition is_transition_name :: "feature \<Rightarrow> bool" where
  "is_transition_name f = (\<exists>fromLabel toLabel. f = transitionFeature fromLabel toLabel)"

text \<open>
  The labels that \<open>_syllablesToLabels\<close> writes for one syllable, \<open>B\<close> for its first
  character and \<open>I\<close> for the others; \<open>marks j n\<close> are the labels of \<open>n\<close> characters
  from the \<open>j\<close>-th of a syllable on.
\<close>

definition syllable_labels :: "jsstring \<Rightarrow> string list" where
  "syllable_labels syllable =
     (case splitToCharacters syllable of [] \<Rightarrow> [] | c # cs \<Rightarrow> ''B'' # replicate (length cs) ''I'')"

definition marks :: "nat \<Rightarrow> nat \<Rightarrow> string list" where
  "marks j n = map (\<lambda>t. if t = 0 then ''B'' else ''I'') [j..<j + n]"

text \<open>The samples that survive \<open>_prepareTrainingSample\<close>, in their order.\<close>

definition prepared ::
  "(jsstring \<Rightarrow> jsstring) \<Rightarrow> (jsstring list \<Rightarrow> nat \<Rightarrow> position) \<Rightarrow> (jsstring \<times> jsstring list) list \<Rightarrow>
   (sequence \<times> jsstring list \<times> string list) list" where
  "prepared nfc extractFeatures trainingData =
     List.map_filter (\<lambda>sample. prepareTrainingSample nfc extractFeatures (fst sample) (snd sample))
       trainingData"

subsection \<open>One training iteration, as the specification words it\<close>

text \<open>
  The part of the log-likelihood and of the gradient buffer that one sequence of the
  corpus adds, under the current weights.
\<close>

definition sequence_logLikelihood :: "crf \<Rightarrow> sequence \<Rightarrow> string list \<Rightarrow> real" where
  "sequence_logLikelihood c sequence labelSeq =
     (case forwardBackward c sequence of
        Inr (alpha, beta, Z) \<Rightarrow> computeSequenceLogLikelihood c sequence labelSeq Z
      | Inl e \<Rightarrow> 0)"

definition sequence_gradients :: "crf \<Rightarrow> sequence \<Rightarrow> string list \<Rightarrow> real list \<Rightarrow> real list" where
  "sequence_gradients c sequence labelSeq gradients =
     (case forwardBackward c sequence of
        Inr (alpha, beta, Z) \<Rightarrow> updateGradients c sequence labelSeq alpha beta Z gradients
      | Inl e \<Rightarrow> gradients)"

text \<open>
  An iteration in closed form: the log-likelihood and the gradient buffer are
  accumulated over the whole corpus under the weights \<open>w\<close> of the start of the iteration;
  then every weight \<open>w[j]\<close> takes \<open>regularization * w[j]\<close> off its gradient and
  \<open>regularization * w[j]^2 / 2\<close> off the log-likelihood; then every weight is updated
  once, \<open>w[j] + learningRate * gradient[j]\<close>.
\<close>

definition iteration_result :: "crf \<Rightarrow> sequence list \<Rightarrow> string list list \<Rightarrow> crf \<times> real" where
  "iteration_result c sequences labels =
     (let w = the (weights c);
          corpus = zip sequences labels;
          total = sum_list (map (\<lambda>(s, l). sequence_logLikelihood c s l) corpus);
          gradient = foldl (\<lambda>g (s, l). sequence_gradients c s l g) (replicate (length w) 0) corpus
      in (c\<lparr>weights := Some (map (\<lambda>j. w ! j + learningRate c * (gradient ! j - regularization c * w ! j))
                                [0..<length w])\<rparr>,
          total - (\<Sum>j<length w. regularization c * w ! j * w ! j / 2)))"

text \<open>
  The course of the iterations when none of them looks at convergence:
  \<open>model_after t\<close> is the model after \<open>t\<close> iterations from a starting model, and
  \<open>logLikelihood_at t\<close> is \<open>LL\<^sub>t\<close>, the log-likelihood that iteration \<open>t\<close> accumulates
  (iterations counted from 1, so \<open>LL\<^sub>t\<close> is computed under the weights of
  \<open>model_after (t - 1)\<close>). Neither refers to the convergence test of the loop.
\<close>

fun model_after :: "nat \<Rightarrow> sequence list \<Rightarrow> string list list \<Rightarrow> crf \<Rightarrow> crf" where
  "model_after 0 sequences labels c = c"
| "model_after (Suc t) sequences labels c =
     fst (iteration_result (model_after t sequences labels c) sequences labels)"

definition logLikelihood_at :: "nat \<Rightarrow> sequence list \<Rightarrow> string list list \<Rightarrow> crf \<Rightarrow> real" where
  "logLikelihood_at t sequences labels c =
     snd (iteration_result (model_after (t - 1) sequences labels c) sequences labels)"

text \<open>The model with which the loop starts: the vocabulary of the corpus, all weights 0.\<close>

definition initial_state :: "crf \<Rightarrow> sequence list \<Rightarrow> string list list \<Rightarrow> crf" where
  "initial_state c sequences labels =
     (let b = buildMappings c sequences labels
      in b\<lparr>weights := Some (replicate (numFeatures b * numLabels b) 0)\<rparr>)"

subsection \<open>Values for the examples\<close>

text \<open>The default options, and a small model with two features and two labels.\<close>

definition default_options :: crf_options where
  "default_options = \<lparr>o_learningRate = None, o_maxIterations = None, o_regularization = None,
                       o_tolerance = None\<rparr>"

definition demo_crf :: crf where
  "demo_crf = (new_CRF default_options)
              \<lparr>weights := Some [1, 2, 3, 4], featureMap := [(''F1'', 0), (''F2'', 1)],
               labelMap := [(''B'', 0), (''I'', 1)], numFeatures := 2, numLabels := 2\<rparr>"

text \<open>A model in which all labels tie: every weight is 0.\<close>

definition tie_crf :: crf where
  "tie_crf = demo_crf\<lparr>weights := Some [0, 0, 0, 0]\<rparr>"

text \<open>An instance with a cap of one iteration, and the model that one iteration on the
  corpus of one sequence, \<open>F1\<close> labelled \<open>B\<close> and \<open>F2\<close> labelled \<open>I\<close>, gives from it.\<close>

definition once_crf :: crf where
  "once_crf = new_CRF \<lparr>o_learningRate = Some (1/2), o_maxIterations = Some 1,
                       o_regularization = None, o_tolerance = None\<rparr>"

definition once_trained :: crf where
  "once_trained = once_crf\<lparr>weights := Some [1/4, -1/4, -1/4, 1/4],
                    featureMap := [(''F1'', 0), (''F2'', 1)],
                    labelMap := [(''B'', 0), (''I'', 1)], numFeatures := 2, numLabels := 2\<rparr>"

text \<open>
  An instance with learning rate 1, regularization 1/2, tolerance 1 and the default cap
  of 100 iterations, for the corpus of two sequences of one position, \<open>F1\<close> labelled
  \<open>B\<close> and \<open>F2\<close> labelled \<open>I\<close>: the model with which its training starts, and the
  models after the first and after the second iteration.
\<close>

definition early_crf :: crf where
  "early_crf = new_CRF \<lparr>o_learningRate = Some 1, o_maxIterations = None,
                        o_regularization = Some (1/2), o_tolerance = Some 1\<rparr>"

definition early_init :: crf where
  "early_init = early_crf\<lparr>weights := Some [0, 0, 0, 0], featureMap := [(''F1'', 0), (''F2'', 1)],
                  labelMap := [(''B'', 0), (''I'', 1)], numFeatures := 2, numLabels := 2\<rparr>"

definition early_first :: crf where
  "early_first = early_init\<lparr>weights := Some [1/2, -1/2, -1/2, 1/2]\<rparr>"

definition early_second :: crf where
  "early_second = early_init\<lparr>weights :=
      Some [5/4 - exp (1/2) / (exp (1/2) + exp (- 1/2)),
            - 1/4 - exp (- 1/2) / (exp (1/2) + exp (- 1/2)),
            - 1/4 - exp (- 1/2) / (exp (- 1/2) + exp (1/2)),
            5/4 - exp (1/2) / (exp (- 1/2) + exp (1/2))]\<rparr>"

text \<open>Model values for \<open>loadModel\<close>: one with a repeated entry, one without weights and
  maps, one whose weight array is too short, one whose label map is not iterable and one
  whose weights are a negative number.\<close>

definition demo_data :: model_data where
  "demo_data = \<lparr>d_weights = W_array [1, 2, 3, 4],
                 d_featureMap = M_array [Entry ''F1'' 0, Entry ''F2'' 1, Entry ''F1'' 0],
                 d_labelMap = M_array [Entry ''B'' 0, Entry ''I'' 1],
                 d_numFeatures = 2, d_numLabels = 2, d_config = None\<rparr>"

definition no_weights_data :: model_data where
  "no_weights_data = \<lparr>d_weights = W_undefined, d_featureMap = M_undefined,
                       d_labelMap = M_undefined,
                       d_numFeatures = 2, d_numLabels = 2, d_config = None\<rparr>"

definition short_weights_data :: model_data where
  "short_weights_data = \<lparr>d_weights = W_array [5],
                          d_featureMap = M_array [Entry ''F1'' 0, Entry ''F2'' 1],
                          d_labelMap = M_array [Entry ''B'' 0, Entry ''I'' 1],
                          d_numFeatures = 2, d_numLabels = 2, d_config = None\<rparr>"

definition bad_labelMap_data :: model_data where
  "bad_labelMap_data = \<lparr>d_weights = W_array [5],
                         d_featureMap = M_array [Entry ''G'' 0],
                         d_labelMap = M_not_iterable,
                         d_numFeatures = 1, d_numLabels = 1, d_config = None\<rparr>"

definition negative_weights_data :: model_data where
  "negative_weights_data = \<lparr>d_weights = W_number (- 1),
                             d_featureMap = M_array [Entry ''G'' 0],
                             d_labelMap = M_array [Entry ''B'' 0],
                             d_numFeatures = 1, d_numLabels = 1, d_config = None\<rparr>"

text \<open>
  For the examples on ASCII text: NFC leaves ASCII text as it is, and a feature extractor
  that gives the one feature \<open>POSITION=<pos>\<close> (one of the features of
  \<open>extractFeatures\<close>).
\<close>

definition ascii_nfc :: "jsstring \<Rightarrow> jsstring" where
  "ascii_nfc text = text"

definition position_feature :: "jsstring list \<Rightarrow> nat \<Rightarrow> position" where
  "position_feature chars pos = [''POSITION='' @ show_nat pos]"

section \<open>Vocabulary ids\<close>

lemma foldl_nested_concat:
  "foldl (\<lambda>st xs. foldl f st xs) s xss = foldl f s (concat xss)"
  by (induction xss arbitrary: s) simp_all

lemma foldl_nested_concat2:
  "foldl (\<lambda>st xs. foldl f st (concat xs)) s xss = foldl f s (concat (concat xss))"
  by (induction xss arbitrary: s) simp_all

lemma remdups_drop_later:
  "x \<in> set bs \<Longrightarrow> remdups (as @ x # bs) = remdups (as @ bs)"
  by (induction as) simp_all

lemma first_seen_distinct: "distinct ks \<Longrightarrow> first_seen ks = ks"
  by (simp add: first_seen_def distinct_remdups_id)

lemma first_seen_seen:
  "x \<in> set ks \<Longrightarrow> first_seen (ks @ x # xs) = first_seen (ks @ xs)"
  by (simp add: first_seen_def remdups_drop_later)

lemma dense_ids_snoc: "dense_ids (ks @ [k]) = dense_ids ks @ [(k, length ks)]"
  by (simp add: dense_ids_def)

lemma map_fst_dense_ids: "map fst (dense_ids ks) = ks"
  by (simp add: dense_ids_def)

lemma map_snd_dense_ids: "map snd (dense_ids ks) = [0..<length ks]"
  by (simp add: dense_ids_def)

lemma length_dense_ids: "length (dense_ids ks) = length ks"
  by (simp add: dense_ids_def)

lemma update_absent: "k \<notin> fst ` set m \<Longrightarrow> AList.update k v m = m @ [(k, v)]"
  by (induction m) auto

lemma assign_id_dense:
  assumes "distinct ks"
  shows "assign_id (dense_ids ks, length ks) x =
           (if x \<in> set ks then (dense_ids ks, length ks)
            else (dense_ids (ks @ [x]), length (ks @ [x])))"
proof -
  have "map_of (dense_ids ks) x = None \<longleftrightarrow> x \<notin> set ks"
    by (simp add: map_of_eq_None_iff map_fst_dense_ids flip: set_map)
  moreover have "x \<notin> set ks \<Longrightarrow> AList.update x (length ks) (dense_ids ks) = dense_ids (ks @ [x])"
    using update_absent [of x "dense_ids ks" "length ks"]
    by (simp add: dense_ids_snoc map_fst_dense_ids flip: set_map)
  ultimately show ?thesis
    by (simp add: Map_has_def Map_set_def)
qed

lemma foldl_assign_id_dense:
  "distinct ks \<Longrightarrow>
   foldl assign_id (dense_ids ks, length ks) xs =
     (dense_ids (first_seen (ks @ xs)), length (first_seen (ks @ xs)))"
proof (induction xs arbitrary: ks)
  case Nil
  then show ?case by (simp add: first_seen_distinct)
next
  case (Cons x xs)
  show ?case
  proof (cases "x \<in> set ks")
    case True
    with Cons show ?thesis
      by (simp add: assign_id_dense first_seen_seen del: assign_id.simps)
  next
    case False
    with Cons.prems have "distinct (ks @ [x])" by simp
    from Cons.IH [OF this] False Cons.prems show ?thesis
      by (simp add: assign_id_dense del: assign_id.simps)
  qed
qed

lemma foldl_assign_id_start:
  "foldl assign_id ([], 0) xs = (dense_ids (first_seen xs), length (first_seen xs))"
  using foldl_assign_id_dense [of "[]" xs] by (simp add: dense_ids_def)

lemma buildMappings_eq:
  "buildMappings c sequences labels =
     c\<lparr>featureMap := dense_ids (first_seen (concat (concat sequences))),
       labelMap := dense_ids (first_seen (concat labels)),
       numFeatures := length (first_seen (concat (concat sequences))),
       numLabels := length (first_seen (concat labels))\<rparr>"
  by (simp add: buildMappings_def foldl_nested_concat foldl_nested_concat2
      foldl_assign_id_start)

lemma distinct_first_seen: "distinct (first_seen xs)"
  by (simp add: first_seen_def)

lemma set_first_seen: "set (first_seen xs) = set xs"
  by (simp add: first_seen_def)

lemma lookup_dense_ids:
  "distinct ks \<Longrightarrow> map (map_of (dense_ids ks)) ks = map Some [0..<length ks]"
  by (rule nth_equalityI) (simp_all add: dense_ids_def map_of_zip_nth)

text \<open>
  C9. For any training corpus, the feature map and the label map that \<open>_buildMappings\<close>
  builds hold the strings of the corpus in the order in which they are first seen, with
  the ids \<open>0, 1, ..., count - 1\<close> in that order (unique, no gap), the keys are distinct,
  and looking up the \<open>k\<close>-th string seen gives the id \<open>k\<close>, wherever the string occurs.
\<close>

theorem buildMappings_dense_first_seen:
  "map fst (featureMap (buildMappings c sequences labels)) = first_seen (concat (concat sequences))
   \<and> map snd (featureMap (buildMappings c sequences labels)) =
       [0..<numFeatures (buildMappings c sequences labels)]
   \<and> distinct (map fst (featureMap (buildMappings c sequences labels)))
   \<and> map (map_of (featureMap (buildMappings c sequences labels)))
         (first_seen (concat (concat sequences))) =
       map Some [0..<numFeatures (buildMappings c sequences labels)]
   \<and> map fst (labelMap (buildMappings c sequences labels)) = first_seen (concat labels)
   \<and> map snd (labelMap (buildMappings c sequences labels)) =
       [0..<numLabels (buildMappings c sequences labels)]
   \<and> distinct (map fst (labelMap (buildMappings c sequences labels)))
   \<and> map (map_of (labelMap (buildMappings c sequences labels))) (first_seen (concat labels)) =
       map Some [0..<numLabels (buildMappings c sequences labels)]"
  by (simp add: buildMappings_eq map_fst_dense_ids map_snd_dense_ids distinct_first_seen
      lookup_dense_ids)

section \<open>Training keeps the shape of the model\<close>

lemma length_updateWeights: "length (updateWeights c g w) = length w"
proof -
  have "length (foldl (\<lambda>w j. w[j := w ! j + learningRate c * g ! j]) w js) = length w" for js
    by (induction js arbitrary: w) simp_all
  then show ?thesis by (simp add: updateWeights_def)
qed

lemma train_iteration_shape:
  assumes "train_iteration c S Ls = Inr (c', ll)"
  shows "\<exists>w'. c' = c\<lparr>weights := Some w'\<rparr> \<and> length w' = length (the (weights c))"
  using assms
  by (auto simp: train_iteration_def Let_def length_updateWeights split: sum.splits prod.splits)

lemma train_loop_shape:
  "train_loop n c S Ls prev = Inr c' \<Longrightarrow> weights c = Some w \<Longrightarrow>
   \<exists>w'. c' = c\<lparr>weights := Some w'\<rparr> \<and> length w' = length w"
proof (induction n arbitrary: c prev w)
  case 0
  then show ?case by (cases c) auto
next
  case (Suc n)
  from Suc.prems obtain c1 ll where it: "train_iteration c S Ls = Inr (c1, ll)"
    by (auto split: sum.splits)
  from train_iteration_shape [OF it] Suc.prems(2)
  obtain w1 where c1: "c1 = c\<lparr>weights := Some w1\<rparr>" and l1: "length w1 = length w" by auto
  show ?case
  proof (cases "converged c1 ll prev")
    case True
    with Suc.prems it have "c' = c1" by simp
    with c1 l1 show ?thesis by blast
  next
    case False
    with Suc.prems it have "train_loop n c1 S Ls (Some ll) = Inr c'" by simp
    from Suc.IH [OF this, of w1] c1 l1 show ?thesis by auto
  qed
qed

lemma forwardBackward_ok:
  "sequence \<noteq> [] \<Longrightarrow> \<exists>r. forwardBackward c sequence = Inr r"
  by (cases sequence) (simp_all add: forwardBackward_def forwardBackward_with_def Let_def)

lemma corpus_pass_ok:
  "length S \<le> length Ls \<Longrightarrow> list_all (\<lambda>s. s \<noteq> []) S \<Longrightarrow> \<exists>r. corpus_pass c S Ls acc = Inr r"
proof (induction S arbitrary: Ls acc)
  case Nil
  then show ?case by simp
next
  case (Cons s S)
  then obtain l Ls' where Ls: "Ls = l # Ls'" by (cases Ls) auto
  from Cons.prems have "s \<noteq> []" by simp
  from forwardBackward_ok [OF this, of c] obtain a b Z where fb: "forwardBackward c s = Inr (a, b, Z)"
    by (metis prod_cases3)
  obtain ll g where acc: "acc = (ll, g)" by (cases acc)
  from Cons.prems Ls have "length S \<le> length Ls'" "list_all (\<lambda>s. s \<noteq> []) S" by simp_all
  from Cons.IH [OF this] show ?case by (simp add: Ls fb acc)
qed

lemma well_shapedD:
  assumes "well_shaped S Ls"
  shows "length S \<le> length Ls" and "list_all (\<lambda>s. s \<noteq> []) S"
proof -
  from assms show len: "length S \<le> length Ls" by (simp add: well_shaped_def)
  then have "map fst (zip S Ls) = S" by (simp add: map_fst_zip_take)
  then have "set S = fst ` set (zip S Ls)" by (metis set_map)
  with assms show "list_all (\<lambda>s. s \<noteq> []) S"
    by (auto simp: well_shaped_def list_all_iff)
qed

lemma train_iteration_ok:
  assumes "well_shaped S Ls"
  shows "\<exists>c' ll. train_iteration c S Ls = Inr (c', ll)"
  using corpus_pass_ok [OF well_shapedD [OF assms], of c "(0, replicate (length (the (weights c))) 0)"]
  by (auto simp: train_iteration_def Let_def split: prod.splits)

lemma train_loop_ok:
  "well_shaped S Ls \<Longrightarrow> \<exists>c'. train_loop n c S Ls prev = Inr c'"
proof (induction n arbitrary: c prev)
  case 0
  then show ?case by simp
next
  case (Suc n)
  from train_iteration_ok [OF Suc.prems, of c] obtain c1 ll
    where "train_iteration c S Ls = Inr (c1, ll)" by blast
  with Suc.IH [OF Suc.prems, of c1 "Some ll"] show ?case by auto
qed

lemma CRF_train_ok: "well_shaped S Ls \<Longrightarrow> \<exists>c'. CRF_train c S Ls = Inr c'"
  by (simp add: CRF_train_def Let_def train_loop_ok)

lemma CRF_train_shape:
  assumes "CRF_train c S Ls = Inr c'"
  shows "\<exists>w. c' = (buildMappings c S Ls)\<lparr>weights := Some w\<rparr>
           \<and> length w = numFeatures (buildMappings c S Ls) * numLabels (buildMappings c S Ls)"
proof -
  let ?b = "buildMappings c S Ls"
  let ?c0 = "?b\<lparr>weights := Some (replicate (numFeatures ?b * numLabels ?b) 0)\<rparr>"
  from assms have "train_loop (maxIterations ?c0) ?c0 S Ls None = Inr c'"
    by (simp add: CRF_train_def Let_def)
  from train_loop_shape [OF this, of "replicate (numFeatures ?b * numLabels ?b) 0"]
  show ?thesis by auto
qed

lemma list_all_dense_ids: "list_all (\<lambda>entry. snd entry < length ks) (dense_ids ks)"
  by (auto simp: list_all_iff dense_ids_def set_zip)

lemma CRF_train_consistent:
  assumes "CRF_train c S Ls = Inr c'"
  shows "consistent c'"
proof -
  from CRF_train_shape [OF assms] obtain w where
    "c' = (buildMappings c S Ls)\<lparr>weights := Some w\<rparr>"
    "length w = numFeatures (buildMappings c S Ls) * numLabels (buildMappings c S Ls)" by blast
  then show ?thesis
    by (simp add: consistent_def buildMappings_eq list_all_dense_ids map_fst_dense_ids
        map_snd_dense_ids distinct_first_seen)
qed

text \<open>On a well-shaped corpus every gold label that the trainer looks up is in the label
  map, with an id below \<open>numLabels\<close>.\<close>

lemma gold_label_in_vocabulary:
  assumes "(s, l) \<in> set (zip S Ls)" "i < length l"
  shows "\<exists>k<numLabels (buildMappings c S Ls).
           map_of (labelMap (buildMappings c S Ls)) (l ! i) = Some k"
proof -
  define ks where "ks = first_seen (concat Ls)"
  from assms(1) have "l \<in> set Ls" by (rule set_zip_rightD)
  moreover from assms(2) have "l ! i \<in> set l" by simp
  ultimately have "l ! i \<in> set (concat Ls)" by auto
  then have "l ! i \<in> set ks" by (simp add: ks_def set_first_seen)
  then obtain k where k: "k < length ks" "ks ! k = l ! i" by (auto simp: in_set_conv_nth)
  have "distinct ks" by (simp add: ks_def distinct_first_seen)
  with k(1) map_of_zip_nth [of ks "[0..<length ks]" k]
  have "map_of (dense_ids ks) (ks ! k) = Some k"
    by (simp add: dense_ids_def)
  with k have "map_of (dense_ids ks) (l ! i) = Some k" by simp
  with k(1) show ?thesis by (auto simp: buildMappings_eq ks_def)
qed

section \<open>The emission score\<close>

lemma computeScore_Nil: "computeScore c [] label = 0"
  by (simp add: computeScore_def)

lemma computeScore_contrib:
  "computeScore c features label = foldl (\<lambda>s f. s + contribution c label f) 0 features"
proof -
  have "(\<lambda>score feature. case map_of (featureMap c) feature of None \<Rightarrow> score
          | Some featureIdx \<Rightarrow> score + the (weights c) ! (featureIdx * numLabels c + label))
        = (\<lambda>s f. s + contribution c label f)"
    by (auto simp: fun_eq_iff contribution_def split: option.splits)
  then show ?thesis by (simp add: computeScore_def)
qed

lemma computeScore_sum_list:
  "computeScore c features label = sum_list (map (contribution c label) features)"
proof -
  have "foldl (\<lambda>s f. s + contribution c label f) a features
          = a + sum_list (map (contribution c label) features)" for a
    by (induction features arbitrary: a) (simp_all add: add.assoc)
  from this [of 0] show ?thesis by (simp add: computeScore_contrib)
qed

lemma computeScore_Cons:
  "computeScore c (f # fs) label = contribution c label f + computeScore c fs label"
  by (simp add: computeScore_sum_list)

lemma computeScore_append:
  "computeScore c (fs @ gs) label = computeScore c fs label + computeScore c gs label"
  by (simp add: computeScore_sum_list)

lemma sum_list_known:
  "sum_list (map (contribution c label) features) =
   sum_list (map (\<lambda>f. the (weights c) ! (the (map_of (featureMap c) f) * numLabels c + label))
               (filter (\<lambda>f. map_of (featureMap c) f \<noteq> None) features))"
  by (induction features) (auto simp: contribution_def)

lemma index_in_range:
  assumes "consistent c" "map_of (featureMap c) f = Some i" "label < numLabels c"
  shows "i * numLabels c + label < length (the (weights c))"
proof -
  from assms(2) have "(f, i) \<in> set (featureMap c)" by (rule map_of_SomeD)
  with assms(1) have "i < numFeatures c" by (auto simp: consistent_def list_all_iff)
  then have "Suc i * numLabels c \<le> numFeatures c * numLabels c"
    by (intro mult_le_mono1) simp
  with assms(3) have "i * numLabels c + label < numFeatures c * numLabels c" by simp
  with assms(1) show ?thesis by (auto simp: consistent_def split: option.splits)
qed

lemma demo_consistent: "consistent demo_crf"
  by (simp add: demo_crf_def consistent_def new_CRF_def numeral_2_eq_2)

text \<open>
  C8. The score of a label at a position is the sum of \<open>weights[f * numLabels + label]\<close>
  over exactly the active features that are in the vocabulary, \<open>f\<close> being the id of the
  feature. A feature that is not in the vocabulary contributes 0: alone it scores 0, and
  adding it anywhere among the active features leaves the score as it is. No branch of
  the function fails, and on a consistent model (such as every trained one) every weight
  that is read lies inside the weight array.
\<close>

theorem computeScore_known_features:
  "computeScore c features label =
     sum_list (map (\<lambda>f. the (weights c) ! (the (map_of (featureMap c) f) * numLabels c + label))
                (filter (\<lambda>f. map_of (featureMap c) f \<noteq> None) features))
   \<and> (map_of (featureMap c) unseen = None \<longrightarrow>
        computeScore c [unseen] label = 0
        \<and> computeScore c (before @ unseen # after) label = computeScore c (before @ after) label)
   \<and> (consistent c \<and> label < numLabels c \<longrightarrow>
        (\<forall>f i. map_of (featureMap c) f = Some i \<longrightarrow>
           i * numLabels c + label < length (the (weights c))))"
proof (intro conjI impI allI)
  show "computeScore c features label =
     sum_list (map (\<lambda>f. the (weights c) ! (the (map_of (featureMap c) f) * numLabels c + label))
                (filter (\<lambda>f. map_of (featureMap c) f \<noteq> None) features))"
    by (simp add: computeScore_sum_list sum_list_known)
next
  assume "map_of (featureMap c) unseen = None"
  then show "computeScore c [unseen] label = 0"
    by (simp add: computeScore_def)
next
  assume "map_of (featureMap c) unseen = None"
  then show "computeScore c (before @ unseen # after) label = computeScore c (before @ after) label"
    by (simp add: computeScore_append computeScore_Cons contribution_def)
next
  fix f i
  assume "consistent c \<and> label < numLabels c" "map_of (featureMap c) f = Some i"
  then show "i * numLabels c + label < length (the (weights c))"
    using index_in_range by blast
qed

theorem computeScore_known_features_witness:
  "map_of (featureMap demo_crf) ''ZZ'' = None
   \<and> consistent demo_crf \<and> (1::nat) < numLabels demo_crf
   \<and> map_of (featureMap demo_crf) ''F2'' = Some 1
   \<and> computeScore demo_crf [''F1'', ''ZZ'', ''F2''] 1 = 6
   \<and> computeScore demo_crf [''ZZ''] 1 = 0
   \<and> computeScore demo_crf [''F1'', ''ZZ'', ''F2''] 1 = computeScore demo_crf [''F1'', ''F2''] 1
   \<and> 1 * numLabels demo_crf + 1 < length (the (weights demo_crf))"
proof -
  have a: "map_of (featureMap demo_crf) ''ZZ'' = None"
    and b: "map_of (featureMap demo_crf) ''F2'' = Some 1"
    and l: "(1::nat) < numLabels demo_crf"
    by (simp_all add: demo_crf_def)
  from computeScore_known_features [of demo_crf "[''F1'', ''ZZ'', ''F2'']" 1 "''ZZ''" "[''F1'']" "[''F2'']"]
    a b l demo_consistent
  have "computeScore demo_crf [''ZZ''] 1 = 0"
    "computeScore demo_crf ([''F1''] @ ''ZZ'' # [''F2'']) 1 = computeScore demo_crf ([''F1''] @ [''F2'']) 1"
    "1 * numLabels demo_crf + 1 < length (the (weights demo_crf))"
    by blast+
  moreover have "computeScore demo_crf [''F1'', ''ZZ'', ''F2''] 1 = 6"
    by (simp add: computeScore_def demo_crf_def)
  ultimately show ?thesis using a b l demo_consistent by simp
qed

section \<open>The length of a prediction\<close>

lemma length_viterbi_forward: "length (viterbi_forward sc tr L prev rest) = length rest"
  by (induction rest arbitrary: prev) (simp_all add: Let_def)

lemma length_backtrack: "length (backtrack rows r) = Suc (length rows)"
  by (induction rows arbitrary: r) simp_all

lemma length_dp_table: "sequence \<noteq> [] \<Longrightarrow> length (dp_table sc tr L sequence) = length sequence"
  by (simp add: dp_table_def Let_def length_viterbi_forward)

lemma length_path_table: "sequence \<noteq> [] \<Longrightarrow> length (path_table sc tr L sequence) = length sequence"
  by (simp add: path_table_def Let_def length_viterbi_forward)

lemma length_viterbi: "sequence \<noteq> [] \<Longrightarrow> length (viterbi sc tr L sequence) = length sequence"
  by (simp add: viterbi_def Let_def length_backtrack length_path_table)

lemma demo_predict: "predict demo_crf [[''F1''], [''F2''], [''ZZ'']] = Inr [Some ''I'', Some ''I'', Some ''B'']"
  by (simp add: predict_def decode_def viterbi_def dp_table_def path_table_def demo_crf_def new_CRF_def
     Let_def best_prev_def best_final_def scan_step_def final_step_def candidate_def computeScore_def
     computeTransitionScore_def transitionFeature_def show_nat.simps labelNames_def elem_at_def
     numeral_2_eq_2 upt_rec)

text \<open>
  C7. On a model that has weights (a trained or a loaded one) \<open>predict\<close> returns a
  sequence of labels as long as its input. On the empty input it returns the empty
  sequence through the early return: whatever the scoring functions are (\<open>decode\<close> is
  \<open>predict\<close> with the two scoring methods as parameters), none of them is consulted and
  no table is built.
\<close>

theorem predict_length:
  "weights c \<noteq> None \<longrightarrow>
     (\<exists>result. predict c sequence = Inr result \<and> length result = length sequence)
     \<and> predict c [] = Inr []
     \<and> (\<forall>sc tr. decode sc tr c [] = Inr [])"
  by (cases "sequence = []") (auto simp: predict_def decode_def length_viterbi)

theorem predict_length_witness:
  "weights demo_crf \<noteq> None
   \<and> predict demo_crf [[''F1''], [''F2''], [''ZZ'']] = Inr [Some ''I'', Some ''I'', Some ''B'']
   \<and> length [Some ''I'', Some ''I'', Some ''B''] = length [[''F1''], [''F2''], [''ZZ'']]
   \<and> predict demo_crf [] = Inr []"
proof -
  have w: "weights demo_crf \<noteq> None" by (simp add: demo_crf_def)
  from predict_length [of demo_crf "[[''F1''], [''F2''], [''ZZ'']]"] w
  have "predict demo_crf [] = Inr []" by blast
  with w demo_predict show ?thesis by simp
qed

section \<open>Export and import\<close>

lemma add_entries_distinct:
  "distinct (map fst (pre @ es)) \<Longrightarrow> add_entries pre (entries es) = Inr (pre @ es)"
proof (induction es arbitrary: pre)
  case Nil
  then show ?case by (simp add: entries_def)
next
  case (Cons e es)
  obtain k v where e: "e = (k, v)" by (cases e)
  from Cons.prems e have "k \<notin> fst ` set pre" by auto
  then have "Map_set pre k v = pre @ [(k, v)]"
    by (simp add: Map_set_def update_absent)
  moreover from Cons.prems e have "distinct (map fst ((pre @ [(k, v)]) @ es))" by simp
  ultimately show ?case using Cons.IH [of "pre @ [(k, v)]"] e by (simp add: entries_def)
qed

lemma add_entries_all:
  "add_entries pre (entries es) = Inr (foldl (\<lambda>m (k, v). Map_set m k v) pre es)"
  by (induction es arbitrary: pre) (auto simp: entries_def)

lemma add_entries_not_object:
  "add_entries pre (entries es @ NotAnObject # items) = Inl TypeError"
  by (induction es arbitrary: pre) (auto simp: entries_def)

lemma new_Map_entries: "distinct (map fst m) \<Longrightarrow> new_Map (M_array (entries m)) = Inr m"
  using add_entries_distinct [of "[]" m] by (simp add: new_Map_def)

lemma distinct_add_entries:
  "add_entries pre items = Inr m \<Longrightarrow> distinct (map fst pre) \<Longrightarrow> distinct (map fst m)"
proof (induction pre items rule: add_entries.induct)
  case (1 m')
  then show ?case by simp
next
  case (2 m' k v items)
  then show ?case by (simp add: Map_set_def distinct_update)
next
  case (3 m' items)
  then show ?case by simp
qed

lemma distinct_new_Map: "new_Map x = Inr m \<Longrightarrow> distinct (map fst m)"
  by (cases x) (auto simp: new_Map_def dest: distinct_add_entries)

lemma loadModel_fields:
  assumes "loadModel c (Some d) = Inr m"
  shows "\<exists>w. weights m = Some w"
    and "new_Map (d_featureMap d) = Inr (featureMap m)"
    and "new_Map (d_labelMap d) = Inr (labelMap m)"
  using assms by (auto simp: loadModel_def Let_def split: option.splits sum.splits)

lemma saveModel_loadModel:
  assumes "weights m = Some w" "distinct (map fst (featureMap m))" "distinct (map fst (labelMap m))"
  shows "\<exists>e. saveModel m = Inr e \<and> (\<forall>c. \<exists>m'. loadModel c (Some e) = Inr m' \<and> saveModel m' = Inr e)"
  using assms
  by (simp add: saveModel_def loadModel_def Let_def new_Map_entries new_Float64Array_def)

lemma load_demo_data: "loadModel demo_crf (Some demo_data) = Inr demo_crf"
  by (simp add: loadModel_def demo_data_def demo_crf_def new_Map_def Map_set_def
      new_Float64Array_def new_CRF_def)

text \<open>
  C3. For a model \<open>m\<close> that \<open>train\<close> returned or that \<open>loadModel\<close> loaded, \<open>saveModel\<close>
  gives a value \<open>e\<close>, and loading \<open>e\<close> into any instance and saving again gives \<open>e\<close>
  itself: the same weights, the same (string, id) pairs of the feature map and of the
  label map (in the same order), the same counts and hyperparameters.
\<close>

theorem export_import_export:
  assumes "CRF_train c0 sequences labels = Inr m \<or> loadModel c0 (Some d) = Inr m"
  shows "\<exists>e. saveModel m = Inr e
           \<and> (\<forall>c. \<exists>m'. loadModel c (Some e) = Inr m' \<and> saveModel m' = Inr e)"
  using assms
proof
  assume "CRF_train c0 sequences labels = Inr m"
  from CRF_train_consistent [OF this] show ?thesis
    by (cases "weights m") (auto simp: consistent_def intro: saveModel_loadModel)
next
  assume "loadModel c0 (Some d) = Inr m"
  from loadModel_fields [OF this] obtain w where "weights m = Some w"
    and "distinct (map fst (featureMap m))" and "distinct (map fst (labelMap m))"
    by (blast dest: distinct_new_Map)
  then show ?thesis by (rule saveModel_loadModel)
qed

theorem export_import_export_witness:
  "loadModel demo_crf (Some demo_data) = Inr demo_crf
   \<and> (\<exists>e. saveModel demo_crf = Inr e
         \<and> (\<exists>m'. loadModel (new_CRF \<lparr>o_learningRate = None, o_maxIterations = None,
                                   o_regularization = None, o_tolerance = None\<rparr>) (Some e) = Inr m'
                 \<and> saveModel m' = Inr e))"
  using export_import_export [of demo_crf "[]" "[]" demo_crf demo_data] load_demo_data
  by blast

text \<open>
  C1, as stated: \<open>loadModel\<close> fails on a model value without \<open>weights\<close>, \<open>featureMap\<close>
  or \<open>labelMap\<close>, or whose weight array is not \<open>numFeatures * numLabels\<close> long, and
  leaves the model as it was. The code has no such check: a value without the three
  fields is loaded as a model with no weight and empty maps, and a value with one weight
  for two features and two labels is loaded as it is; both replace the state.
\<close>

theorem loadModel_malformed_counterexample:
  "d_weights no_weights_data = W_undefined \<and> d_featureMap no_weights_data = M_undefined
   \<and> d_labelMap no_weights_data = M_undefined
   \<and> loadModel demo_crf (Some no_weights_data)
       = Inr (demo_crf\<lparr>weights := Some [], featureMap := [], labelMap := []\<rparr>)
   \<and> demo_crf\<lparr>weights := Some [], featureMap := [], labelMap := []\<rparr> \<noteq> demo_crf
   \<and> d_weights short_weights_data = W_array [5]
   \<and> length [5 :: real] \<noteq> d_numFeatures short_weights_data * d_numLabels short_weights_data
   \<and> loadModel demo_crf (Some short_weights_data) = Inr (demo_crf\<lparr>weights := Some [5]\<rparr>)
   \<and> demo_crf\<lparr>weights := Some [5]\<rparr> \<noteq> demo_crf"
  by (simp add: loadModel_def no_weights_data_def short_weights_data_def demo_crf_def new_Map_def
      Map_set_def new_Float64Array_def new_CRF_def)

text \<open>
  C1, amended. \<open>loadModel\<close> has no check of its own and no error for malformed data.
  A missing \<open>weights\<close>, \<open>featureMap\<close> or \<open>labelMap\<close> and a weight array whose length is
  not \<open>numFeatures * numLabels\<close> are no failures: whenever the two constructors accept
  the three fields (they accept a missing field, an array of numbers as weights, an
  array of entries as a map), \<open>loadModel\<close> returns and has overwritten the model with the
  weights (none when missing), the maps (empty when missing), \<open>numFeatures\<close> and
  \<open>numLabels\<close> as given, and the hyperparameters of \<open>config\<close> when it is present. It
  fails only where JavaScript itself throws: on a model value that is \<open>undefined\<close>, and
  on a field on which its constructor throws (a negative number as weights, a map value
  that is not iterable or has an item that is not an object). Then the fields assigned
  before the exception keep their new values: nothing on \<open>undefined\<close> and on bad weights,
  the weights on a bad \<open>featureMap\<close>, the weights and the feature map on a bad \<open>labelMap\<close>.
\<close>

theorem loadModel_unvalidated:
  "loadModel c None = Inl (TypeError, c)
   \<and> (\<forall>w fm lm. new_Float64Array (d_weights d) = Inr w \<and> new_Map (d_featureMap d) = Inr fm
         \<and> new_Map (d_labelMap d) = Inr lm \<longrightarrow>
         (\<exists>c'. loadModel c (Some d) = Inr c'
           \<and> weights c' = Some w \<and> featureMap c' = fm \<and> labelMap c' = lm
           \<and> numFeatures c' = d_numFeatures d
           \<and> numLabels c' = d_numLabels d
           \<and> learningRate c' = (case d_config d of None \<Rightarrow> learningRate c | Some cfg \<Rightarrow> d_learningRate cfg)
           \<and> maxIterations c' = (case d_config d of None \<Rightarrow> maxIterations c | Some cfg \<Rightarrow> d_maxIterations cfg)
           \<and> regularization c' = (case d_config d of None \<Rightarrow> regularization c | Some cfg \<Rightarrow> d_regularization cfg)
           \<and> tolerance c' = (case d_config d of None \<Rightarrow> tolerance c | Some cfg \<Rightarrow> d_tolerance cfg)))
   \<and> (\<forall>e. new_Float64Array (d_weights d) = Inl e \<longrightarrow> loadModel c (Some d) = Inl (e, c))
   \<and> (\<forall>w e. new_Float64Array (d_weights d) = Inr w \<and> new_Map (d_featureMap d) = Inl e \<longrightarrow>
         loadModel c (Some d) = Inl (e, c\<lparr>weights := Some w\<rparr>))
   \<and> (\<forall>w fm e. new_Float64Array (d_weights d) = Inr w \<and> new_Map (d_featureMap d) = Inr fm
         \<and> new_Map (d_labelMap d) = Inl e \<longrightarrow>
         loadModel c (Some d) = Inl (e, c\<lparr>weights := Some w, featureMap := fm\<rparr>))
   \<and> new_Float64Array W_undefined = Inr [] \<and> new_Float64Array (W_array xs) = Inr xs
   \<and> (n < 0 \<longrightarrow> new_Float64Array (W_number n) = Inl RangeError)
   \<and> new_Map M_undefined = Inr [] \<and> new_Map M_not_iterable = Inl TypeError
   \<and> new_Map (M_array (entries es)) = Inr (foldl (\<lambda>m (k, v). Map_set m k v) [] es)
   \<and> new_Map (M_array (entries es @ NotAnObject # items)) = Inl TypeError"
  by (auto simp: loadModel_def Let_def new_Float64Array_def new_Map_def add_entries_all
      add_entries_not_object split: option.splits)

theorem loadModel_unvalidated_witness:
  "loadModel demo_crf None = Inl (TypeError, demo_crf)
   \<and> loadModel demo_crf (Some no_weights_data)
       = Inr (demo_crf\<lparr>weights := Some [], featureMap := [], labelMap := []\<rparr>)
   \<and> loadModel demo_crf (Some negative_weights_data) = Inl (RangeError, demo_crf)
   \<and> loadModel demo_crf (Some bad_labelMap_data)
       = Inl (TypeError, demo_crf\<lparr>weights := Some [5], featureMap := [(''G'', 0)]\<rparr>)
   \<and> loadModel demo_crf (Some (bad_labelMap_data\<lparr>d_featureMap := M_array [Entry ''G'' 0, NotAnObject]\<rparr>))
       = Inl (TypeError, demo_crf\<lparr>weights := Some [5]\<rparr>)"
proof -
  have ok: "new_Float64Array (d_weights no_weights_data) = Inr []"
    "new_Map (d_featureMap no_weights_data) = Inr []"
    "new_Map (d_labelMap no_weights_data) = Inr []"
    by (simp_all add: no_weights_data_def new_Float64Array_def new_Map_def)
  have "new_Float64Array (W_number (- 1)) = Inl RangeError"
    using loadModel_unvalidated [of demo_crf negative_weights_data "[]" "- 1" "[]" "[]"] by simp
  then have neg: "new_Float64Array (d_weights negative_weights_data) = Inl RangeError"
    by (simp add: negative_weights_data_def)
  have bad: "new_Float64Array (d_weights bad_labelMap_data) = Inr [5]"
    "new_Map (d_featureMap bad_labelMap_data) = Inr [(''G'', 0)]"
    "new_Map (d_labelMap bad_labelMap_data) = Inl TypeError"
    by (simp_all add: bad_labelMap_data_def new_Float64Array_def new_Map_def Map_set_def)
  define bad_featureMap_data
    where "bad_featureMap_data = bad_labelMap_data\<lparr>d_featureMap := M_array [Entry ''G'' 0, NotAnObject]\<rparr>"
  have bad2: "new_Float64Array (d_weights bad_featureMap_data) = Inr [5]"
    "new_Map (d_featureMap bad_featureMap_data) = Inl TypeError"
    by (simp_all add: bad_featureMap_data_def bad_labelMap_data_def new_Float64Array_def
        new_Map_def)
  note t1 = loadModel_unvalidated [of demo_crf no_weights_data "[]" 0 "[]" "[]"]
  note t2 = loadModel_unvalidated [of demo_crf negative_weights_data "[]" 0 "[]" "[]"]
  note t3 = loadModel_unvalidated [of demo_crf bad_labelMap_data "[]" 0 "[]" "[]"]
  note t4 = loadModel_unvalidated [of demo_crf bad_featureMap_data "[]" 0 "[]" "[]"]
  have "loadModel demo_crf None = Inl (TypeError, demo_crf)"
    using t1 by blast
  moreover have "\<exists>c'. loadModel demo_crf (Some no_weights_data) = Inr c'"
    using t1 ok by blast
  then have "loadModel demo_crf (Some no_weights_data)
       = Inr (demo_crf\<lparr>weights := Some [], featureMap := [], labelMap := []\<rparr>)"
    by (auto simp: loadModel_def no_weights_data_def new_Float64Array_def new_Map_def
        demo_crf_def new_CRF_def)
  moreover have "loadModel demo_crf (Some negative_weights_data) = Inl (RangeError, demo_crf)"
    using t2 neg by blast
  moreover have "loadModel demo_crf (Some bad_labelMap_data)
       = Inl (TypeError, demo_crf\<lparr>weights := Some [5], featureMap := [(''G'', 0)]\<rparr>)"
    using t3 bad by blast
  moreover have "loadModel demo_crf (Some bad_featureMap_data)
       = Inl (TypeError, demo_crf\<lparr>weights := Some [5]\<rparr>)"
    using t4 bad2 by blast
  ultimately show ?thesis unfolding bad_featureMap_data_def by blast
qed


section \<open>Ties in the Viterbi decoder\<close>

lemma first_maxI:
  "b < n \<Longrightarrow> (\<And>k. k < n \<Longrightarrow> f k \<le> f b) \<Longrightarrow> (\<And>k. k < b \<Longrightarrow> f k < f b) \<Longrightarrow> first_max f n b"
  unfolding first_max_def
proof (intro conjI allI impI)
  fix k
  assume a: "\<And>k. k < b \<Longrightarrow> f k < f b" and e: "f k = f b"
  show "b \<le> k"
  proof (rule ccontr)
    assume "\<not> b \<le> k"
    then have "k < b" by simp
    from a [OF this] e show False by simp
  qed
qed simp_all

lemma scan_invariant:
  fixes cand :: "nat \<Rightarrow> real option"
  shows "foldl (scan_step cand) (None, 0) [0..<Suc n] = (m, b) \<Longrightarrow>
         b < Suc n \<and> m = cand b \<and> (\<forall>k<Suc n. cand k \<le> m) \<and> (\<forall>k<b. cand k < m)"
proof (induction n arbitrary: m b)
  case 0
  then show ?case
    by (cases "cand 0") (auto simp: scan_step_def split: if_splits)
next
  case (Suc n)
  obtain m0 b0 where prev: "foldl (scan_step cand) (None, 0) [0..<Suc n] = (m0, b0)"
    by (cases "foldl (scan_step cand) (None, 0) [0..<Suc n]")
  from Suc.IH [OF prev] have inv: "b0 < Suc n" "m0 = cand b0"
    "\<forall>k<Suc n. cand k \<le> m0" "\<forall>k<b0. cand k < m0" by auto
  from Suc.prems prev have step: "scan_step cand (m0, b0) (Suc n) = (m, b)" by simp
  show ?case
  proof (cases "cand (Suc n) > m0")
    case True
    with step have "m = cand (Suc n)" "b = Suc n" by (auto simp: scan_step_def)
    with True inv show ?thesis
      by (auto simp: less_Suc_eq intro: le_less_trans less_imp_le)
  next
    case False
    with step have "m = m0" "b = b0" by (auto simp: scan_step_def)
    with False inv show ?thesis by (auto simp: less_Suc_eq)
  qed
qed

lemma best_prev_first_max:
  assumes "0 < L"
  shows "first_max (candidate sc tr prev pos j) L (snd (best_prev sc tr L prev pos j))
         \<and> fst (best_prev sc tr L prev pos j)
             = candidate sc tr prev pos j (snd (best_prev sc tr L prev pos j))"
proof -
  from assms obtain n where L: "L = Suc n" by (cases L) auto
  obtain m b where mb: "best_prev sc tr L prev pos j = (m, b)" by (cases "best_prev sc tr L prev pos j")
  then have "foldl (scan_step (candidate sc tr prev pos j)) (None, 0) [0..<Suc n] = (m, b)"
    by (simp add: best_prev_def L)
  from scan_invariant [OF this] have "b < L" "m = candidate sc tr prev pos j b"
    "\<forall>k<L. candidate sc tr prev pos j k \<le> candidate sc tr prev pos j b"
    "\<forall>k<b. candidate sc tr prev pos j k < candidate sc tr prev pos j b"
    by (auto simp: L)
  then show ?thesis
    by (simp add: mb first_maxI)
qed

lemma final_invariant:
  fixes row :: "real option list"
  shows "foldl (final_step row) (row ! 0, 0) [1..<Suc n] = (m, b) \<Longrightarrow>
         b < Suc n \<and> m = row ! b \<and> (\<forall>j<Suc n. row ! j \<le> m) \<and> (\<forall>j<b. row ! j < m)"
proof (induction n arbitrary: m b)
  case 0
  then show ?case by simp
next
  case (Suc n)
  obtain m0 b0 where prev: "foldl (final_step row) (row ! 0, 0) [1..<Suc n] = (m0, b0)"
    by (cases "foldl (final_step row) (row ! 0, 0) [1..<Suc n]")
  from Suc.IH [OF prev] have inv: "b0 < Suc n" "m0 = row ! b0"
    "\<forall>j<Suc n. row ! j \<le> m0" "\<forall>j<b0. row ! j < m0" by auto
  from Suc.prems prev have step: "final_step row (m0, b0) (Suc n) = (m, b)" by simp
  show ?case
  proof (cases "row ! Suc n > m0")
    case True
    with step have "m = row ! Suc n" "b = Suc n" by (auto simp: final_step_def)
    with True inv show ?thesis
      by (auto simp: less_Suc_eq intro: le_less_trans less_imp_le)
  next
    case False
    with step have "m = m0" "b = b0" by (auto simp: final_step_def)
    with False inv show ?thesis by (auto simp: less_Suc_eq)
  qed
qed

lemma best_final_first_max:
  assumes "0 < L" "length row = L"
  shows "first_max (\<lambda>j. row ! j) L (best_final L row)"
proof -
  from assms obtain n where L: "L = Suc n" by (cases L) auto
  from assms L obtain d0 ds where row: "row = d0 # ds" by (cases row) auto
  obtain m b where mb: "foldl (final_step row) (row ! 0, 0) [1..<Suc n] = (m, b)"
    by (cases "foldl (final_step row) (row ! 0, 0) [1..<Suc n]")
  then have "best_final L row = b"
    by (simp add: best_final_def L row)
  with final_invariant [OF mb] show ?thesis
    by (auto simp: L intro!: first_maxI)
qed

lemma viterbi_forward_nth:
  "i < length rest \<Longrightarrow>
   viterbi_forward sc tr L prev rest ! i =
     (let before = (if i = 0 then prev else fst (viterbi_forward sc tr L prev rest ! (i - 1)));
          cells = map (best_prev sc tr L before (rest ! i)) [0..<L]
      in (map fst cells, map snd cells))"
proof (induction rest arbitrary: prev i)
  case Nil
  then show ?case by simp
next
  case (Cons pos rest)
  show ?case
  proof (cases i)
    case 0
    then show ?thesis by (simp add: Let_def)
  next
    case (Suc i')
    with Cons.prems have "i' < length rest" by simp
    from Cons.IH [OF this] Suc show ?thesis
      by (cases i') (simp_all add: Let_def)
  qed
qed

lemma table_row:
  assumes "0 < i" "i < length sequence"
  shows "dp_table sc tr L sequence ! i
           = map (\<lambda>j. fst (best_prev sc tr L (dp_table sc tr L sequence ! (i - 1)) (sequence ! i) j)) [0..<L]"
    and "path_table sc tr L sequence ! i
           = map (\<lambda>j. snd (best_prev sc tr L (dp_table sc tr L sequence ! (i - 1)) (sequence ! i) j)) [0..<L]"
proof -
  from assms obtain pos0 rest where s: "sequence = pos0 # rest" by (cases sequence) auto
  from assms obtain i' where i: "i = Suc i'" by (cases i) auto
  with assms s have i': "i' < length rest" by simp
  define dp0 where "dp0 = map (\<lambda>j. Some (sc pos0 j)) [0..<L]"
  define rows where "rows = viterbi_forward sc tr L dp0 rest"
  have len: "length rows = length rest"
    by (simp add: rows_def length_viterbi_forward)
  have dp_i: "dp_table sc tr L sequence ! i = fst (rows ! i')"
    using i' by (simp add: dp_table_def s i Let_def rows_def dp0_def len [unfolded rows_def dp0_def])
  have path_i: "path_table sc tr L sequence ! i = snd (rows ! i')"
    using i' by (simp add: path_table_def s i Let_def rows_def dp0_def len [unfolded rows_def dp0_def])
  have prev: "dp_table sc tr L sequence ! (i - 1) = (if i' = 0 then dp0 else fst (rows ! (i' - 1)))"
    using i' by (cases i') (simp_all add: dp_table_def s i Let_def rows_def dp0_def
        len [unfolded rows_def dp0_def])
  have seq_i: "sequence ! i = rest ! i'" by (simp add: s i)
  have row: "rows ! i' =
       (map (\<lambda>j. fst (best_prev sc tr L (dp_table sc tr L sequence ! (i - 1)) (sequence ! i) j)) [0..<L],
        map (\<lambda>j. snd (best_prev sc tr L (dp_table sc tr L sequence ! (i - 1)) (sequence ! i) j)) [0..<L])"
    unfolding prev seq_i rows_def
    using viterbi_forward_nth [OF i', of sc tr L dp0] by (simp add: Let_def comp_def)
  show "dp_table sc tr L sequence ! i
           = map (\<lambda>j. fst (best_prev sc tr L (dp_table sc tr L sequence ! (i - 1)) (sequence ! i) j)) [0..<L]"
    by (simp only: dp_i row fst_conv)
  show "path_table sc tr L sequence ! i
           = map (\<lambda>j. snd (best_prev sc tr L (dp_table sc tr L sequence ! (i - 1)) (sequence ! i) j)) [0..<L]"
    by (simp only: path_i row snd_conv)
qed

lemma backtrack_0: "backtrack rows r ! 0 = r"
  by (cases rows) simp_all

lemma backtrack_Suc:
  "k < length rows \<Longrightarrow>
   backtrack rows r ! Suc k = Option.bind (backtrack rows r ! k) (elem_at (rows ! k))"
proof (induction rows arbitrary: r k)
  case Nil
  then show ?case by simp
next
  case (Cons row rows)
  show ?case
  proof (cases k)
    case 0
    then show ?thesis by (simp add: backtrack_0)
  next
    case (Suc k')
    with Cons.prems have "k' < length rows" by simp
    from Cons.IH [OF this] Suc show ?thesis by simp
  qed
qed

lemma viterbi_last:
  assumes "sequence \<noteq> []"
  shows "viterbi sc tr L sequence ! (length sequence - 1)
           = Some (best_final L (dp_table sc tr L sequence ! (length sequence - 1)))"
proof -
  let ?path = "path_table sc tr L sequence" and ?dp = "dp_table sc tr L sequence"
  let ?bt = "backtrack (rev (tl ?path)) (Some (best_final L (last ?dp)))"
  have len: "length ?bt = length sequence"
    using assms by (simp add: length_backtrack length_path_table)
  have "?dp \<noteq> []" by (simp add: dp_table_def Let_def)
  then have last: "last ?dp = ?dp ! (length sequence - 1)"
    using assms by (simp add: last_conv_nth length_dp_table)
  have "rev ?bt ! (length sequence - 1) = ?bt ! 0"
    using assms len by (simp add: rev_nth)
  then show ?thesis
    by (simp add: viterbi_def Let_def backtrack_0 last)
qed

lemma viterbi_step:
  assumes "Suc i < length sequence"
  shows "viterbi sc tr L sequence ! i
           = Option.bind (viterbi sc tr L sequence ! Suc i)
               (elem_at (path_table sc tr L sequence ! Suc i))"
proof -
  from assms have ne: "sequence \<noteq> []" by auto
  let ?path = "path_table sc tr L sequence" and ?dp = "dp_table sc tr L sequence"
  let ?rows = "rev (tl ?path)"
  let ?bt = "backtrack ?rows (Some (best_final L (last ?dp)))"
  let ?n = "length sequence"
  have lp: "length ?path = ?n" using ne by (rule length_path_table)
  then have lr: "length ?rows = ?n - 1" by simp
  have len: "length ?bt = ?n" using ne by (simp add: length_backtrack lp)
  have v: "viterbi sc tr L sequence = rev ?bt" by (simp add: viterbi_def Let_def)
  have a: "rev ?bt ! i = ?bt ! Suc (?n - 2 - i)"
    using assms len by (simp add: rev_nth Suc_diff_Suc)
  have b: "rev ?bt ! Suc i = ?bt ! (?n - 2 - i)"
    using assms len by (simp add: rev_nth)
  have k: "?n - 2 - i < length ?rows" using assms lr by simp
  have idx: "?n - Suc (Suc (?n - Suc (Suc i))) = i"
    using assms by arith
  have "?rows ! (?n - 2 - i) = tl ?path ! i"
    using assms lp by (simp add: rev_nth idx)
  also have "\<dots> = ?path ! Suc i"
    using assms lp by (simp add: nth_tl)
  finally have c: "?rows ! (?n - 2 - i) = ?path ! Suc i" .
  from backtrack_Suc [OF k, of "Some (best_final L (last ?dp))"]
  show ?thesis by (simp only: v a b c)
qed

lemma dp_row_length:
  assumes "i < length sequence"
  shows "length (dp_table sc tr L sequence ! i) = L"
proof (cases i)
  case 0
  then show ?thesis by (simp add: dp_table_def Let_def)
next
  case (Suc i')
  with assms table_row(1) [of i sequence sc tr L] show ?thesis by simp
qed

lemma tie_tables:
  "dp_table (computeScore tie_crf) (computeTransitionScore tie_crf) 2 [[''F1''], [''F2'']]
     = [[Some 0, Some 0], [Some 0, Some 0]]"
  "path_table (computeScore tie_crf) (computeTransitionScore tie_crf) 2 [[''F1''], [''F2'']]
     = [[0, 0], [0, 0]]"
  by (simp_all add: dp_table_def path_table_def tie_crf_def demo_crf_def new_CRF_def
     Let_def best_prev_def scan_step_def candidate_def computeScore_def
     computeTransitionScore_def transitionFeature_def show_nat.simps numeral_2_eq_2 upt_rec)

text \<open>
  C4. In the tables of the decoder, for every position \<open>i \<ge> 1\<close> and label \<open>j\<close> the
  back-pointer \<open>path[i][j]\<close> is the lowest label id \<open>k\<close> at which the score
  \<open>dp[i-1][k] + transitionScore(k, j) + score(pos i, j)\<close> is greatest, and \<open>dp[i][j]\<close> is
  that score; the final label is the lowest id at which \<open>dp[n-1][.]\<close> is greatest; and
  the returned path follows the back-pointers from it. So among labels that tie on the
  greatest score the first one scanned is kept, in the recurrence and in the final
  choice. (\<open>predict\<close> is this decoder at \<open>computeScore c\<close>, \<open>computeTransitionScore c\<close>
  and \<open>numLabels c\<close>.)
\<close>

theorem viterbi_ties_lowest_id:
  assumes "sequence \<noteq> []" and "0 < L"
  shows "(\<forall>i j. 0 < i \<and> i < length sequence \<and> j < L \<longrightarrow>
            first_max (candidate sc tr (dp_table sc tr L sequence ! (i - 1)) (sequence ! i) j) L
              (path_table sc tr L sequence ! i ! j)
            \<and> dp_table sc tr L sequence ! i ! j
                = candidate sc tr (dp_table sc tr L sequence ! (i - 1)) (sequence ! i) j
                    (path_table sc tr L sequence ! i ! j))
         \<and> first_max (\<lambda>j. dp_table sc tr L sequence ! (length sequence - 1) ! j) L
             (best_final L (dp_table sc tr L sequence ! (length sequence - 1)))
         \<and> viterbi sc tr L sequence ! (length sequence - 1)
             = Some (best_final L (dp_table sc tr L sequence ! (length sequence - 1)))
         \<and> (\<forall>i. Suc i < length sequence \<longrightarrow>
               viterbi sc tr L sequence ! i
                 = Option.bind (viterbi sc tr L sequence ! Suc i)
                     (elem_at (path_table sc tr L sequence ! Suc i)))"
proof (intro conjI allI impI)
  fix i j
  assume h: "0 < i \<and> i < length sequence \<and> j < L"
  then have rows:
    "dp_table sc tr L sequence ! i ! j
       = fst (best_prev sc tr L (dp_table sc tr L sequence ! (i - 1)) (sequence ! i) j)"
    "path_table sc tr L sequence ! i ! j
       = snd (best_prev sc tr L (dp_table sc tr L sequence ! (i - 1)) (sequence ! i) j)"
    using table_row [of i sequence sc tr L] by simp_all
  from best_prev_first_max [OF assms(2), of sc tr "dp_table sc tr L sequence ! (i - 1)" "sequence ! i" j]
  show "first_max (candidate sc tr (dp_table sc tr L sequence ! (i - 1)) (sequence ! i) j) L
              (path_table sc tr L sequence ! i ! j)"
    and "dp_table sc tr L sequence ! i ! j
                = candidate sc tr (dp_table sc tr L sequence ! (i - 1)) (sequence ! i) j
                    (path_table sc tr L sequence ! i ! j)"
    by (simp_all only: rows)
next
  from assms(1) have "length sequence - 1 < length sequence" by simp
  from dp_row_length [OF this] best_final_first_max [OF assms(2)]
  show "first_max (\<lambda>j. dp_table sc tr L sequence ! (length sequence - 1) ! j) L
             (best_final L (dp_table sc tr L sequence ! (length sequence - 1)))"
    by blast
next
  from assms(1) show "viterbi sc tr L sequence ! (length sequence - 1)
             = Some (best_final L (dp_table sc tr L sequence ! (length sequence - 1)))"
    by (rule viterbi_last)
next
  fix i assume "Suc i < length sequence"
  then show "viterbi sc tr L sequence ! i
                 = Option.bind (viterbi sc tr L sequence ! Suc i)
                     (elem_at (path_table sc tr L sequence ! Suc i))"
    by (rule viterbi_step)
qed

theorem viterbi_ties_lowest_id_witness:
  "[[''F1''], [''F2'']] \<noteq> [] \<and> (0::nat) < 2 \<and> (0::nat) < 1 \<and> 1 < length [[''F1''], [''F2'']] \<and> (1::nat) < 2
   \<and> candidate (computeScore tie_crf) (computeTransitionScore tie_crf) [Some 0, Some 0] [''F2''] 1 0
       = candidate (computeScore tie_crf) (computeTransitionScore tie_crf) [Some 0, Some 0] [''F2''] 1 1
   \<and> first_max (candidate (computeScore tie_crf) (computeTransitionScore tie_crf) [Some 0, Some 0] [''F2''] 1) 2 0
   \<and> first_max (\<lambda>j. [Some 0, Some 0] ! j) 2 (best_final 2 [Some 0, Some 0])
   \<and> best_final 2 [Some 0, Some 0] = 0
   \<and> viterbi (computeScore tie_crf) (computeTransitionScore tie_crf) 2 [[''F1''], [''F2'']] ! 1 = Some 0
   \<and> viterbi (computeScore tie_crf) (computeTransitionScore tie_crf) 2 [[''F1''], [''F2'']] ! 0
       = Option.bind (Some 0) (elem_at [0, 0])"
proof -
  let ?sc = "computeScore tie_crf" and ?tr = "computeTransitionScore tie_crf"
  let ?seq = "[[''F1''], [''F2'']]"
  have ne: "?seq \<noteq> []" and L: "(0::nat) < 2" by simp_all
  have bf: "best_final 2 [Some 0, Some (0::real)] = 0"
    by (simp add: best_final_def final_step_def numeral_2_eq_2)
  have cand: "candidate ?sc ?tr [Some 0, Some 0] [''F2''] 1 0 = candidate ?sc ?tr [Some 0, Some 0] [''F2''] 1 1"
    by (simp add: candidate_def computeTransitionScore_def transitionFeature_def show_nat.simps
        tie_crf_def demo_crf_def new_CRF_def)
  note t = viterbi_ties_lowest_id [OF ne L, of ?sc ?tr]
  from t have "first_max (candidate ?sc ?tr (dp_table ?sc ?tr 2 ?seq ! (1 - 1)) (?seq ! 1) 1) 2
                 (path_table ?sc ?tr 2 ?seq ! 1 ! 1)"
    by simp
  then have a: "first_max (candidate ?sc ?tr [Some 0, Some 0] [''F2''] 1) 2 0"
    by (simp add: tie_tables)
  from t have "first_max (\<lambda>j. dp_table ?sc ?tr 2 ?seq ! (length ?seq - 1) ! j) 2
                 (best_final 2 (dp_table ?sc ?tr 2 ?seq ! (length ?seq - 1)))"
    by blast
  then have b: "first_max (\<lambda>j. [Some 0, Some 0] ! j) 2 (best_final 2 [Some 0, Some 0])"
    by (simp add: tie_tables)
  from t have "viterbi ?sc ?tr 2 ?seq ! (length ?seq - 1)
             = Some (best_final 2 (dp_table ?sc ?tr 2 ?seq ! (length ?seq - 1)))"
    by blast
  then have c: "viterbi ?sc ?tr 2 ?seq ! 1 = Some 0"
    by (simp add: tie_tables bf)
  from t have "Suc 0 < length ?seq \<longrightarrow> viterbi ?sc ?tr 2 ?seq ! 0
                 = Option.bind (viterbi ?sc ?tr 2 ?seq ! Suc 0) (elem_at (path_table ?sc ?tr 2 ?seq ! Suc 0))"
    by blast
  then have d: "viterbi ?sc ?tr 2 ?seq ! 0 = Option.bind (Some 0) (elem_at [0, 0])"
    using c by (simp add: tie_tables)
  from a b c d cand bf show ?thesis by simp
qed

section \<open>The forward-backward recurrences\<close>

lemma foldl_plus_sum_list:
  fixes a :: real
  shows "foldl (\<lambda>s k. s + f k) a xs = a + sum_list (map f xs)"
  by (induction xs arbitrary: a) (simp_all add: add.assoc)

lemma loop_sum_eq: "loop_sum L f = (\<Sum>k<L. f k)"
proof -
  have "loop_sum L f = sum_list (map f [0..<L])"
    by (simp add: loop_sum_def foldl_plus_sum_list)
  also have "\<dots> = sum f {0..<L}"
    by (simp add: interv_sum_list_conv_sum_set_nat)
  finally show ?thesis by (simp add: lessThan_atLeast0)
qed

lemma reduce_sum_eq:
  fixes row :: "real list"
  shows "foldl (\<lambda>sum val. sum + val) 0 row = (\<Sum>j<length row. row ! j)"
proof -
  have "foldl (\<lambda>sum val. sum + val) 0 row = sum_list (map (\<lambda>v. v) row)"
    by (simp only: foldl_plus_sum_list)
  then show ?thesis
    by (simp add: sum_list_sum_nth lessThan_atLeast0)
qed

lemma length_forward_pass: "length (forward_pass sc tr L prev rest) = length rest"
  by (induction rest arbitrary: prev) (simp_all add: Let_def)

lemma forward_pass_nth:
  "i < length rest \<Longrightarrow>
   forward_pass sc tr L prev rest ! i =
     map (\<lambda>j. loop_sum L (\<lambda>k. (if i = 0 then prev else forward_pass sc tr L prev rest ! (i - 1)) ! k
                                * exp (tr k j + sc (rest ! i) j))) [0..<L]"
proof (induction rest arbitrary: prev i)
  case Nil
  then show ?case by simp
next
  case (Cons pos rest)
  show ?case
  proof (cases i)
    case 0
    then show ?thesis by (simp add: Let_def)
  next
    case (Suc i')
    with Cons.prems have "i' < length rest" by simp
    from Cons.IH [OF this] Suc show ?thesis
      by (cases i') (simp_all add: Let_def)
  qed
qed

lemma length_backward_pass: "length (backward_pass sc tr L rest) = Suc (length rest)"
  by (induction rest) (simp_all add: Let_def)

lemma backward_pass_last: "backward_pass sc tr L rest ! length rest = replicate L 1"
  by (induction rest) (simp_all add: Let_def)

lemma backward_pass_nth:
  "i < length rest \<Longrightarrow>
   backward_pass sc tr L rest ! i =
     map (\<lambda>j. loop_sum L (\<lambda>k. backward_pass sc tr L rest ! Suc i ! k
                                * exp (tr j k + sc (rest ! i) k))) [0..<L]"
proof (induction rest arbitrary: i)
  case Nil
  then show ?case by simp
next
  case (Cons pos rest)
  have ne: "backward_pass sc tr L rest \<noteq> []"
    using length_backward_pass [of sc tr L rest] by auto
  show ?case
  proof (cases i)
    case 0
    then show ?thesis using ne by (simp add: Let_def hd_conv_nth)
  next
    case (Suc i')
    with Cons.prems have "i' < length rest" by simp
    from Cons.IH [OF this] Suc show ?thesis by (simp add: Let_def)
  qed
qed

lemma forwardBackward_with_spec:
  assumes "sequence \<noteq> []"
  shows "\<exists>alpha beta Z.
           forwardBackward_with sc tr L sequence = Inr (alpha, beta, Z)
           \<and> length alpha = length sequence \<and> length beta = length sequence
           \<and> (\<forall>j<L. alpha ! 0 ! j = exp (sc (sequence ! 0) j))
           \<and> (\<forall>i j. 0 < i \<and> i < length sequence \<and> j < L \<longrightarrow>
                 alpha ! i ! j = (\<Sum>k<L. alpha ! (i - 1) ! k * exp (tr k j + sc (sequence ! i) j)))
           \<and> (\<forall>j<L. beta ! (length sequence - 1) ! j = 1)
           \<and> (\<forall>i j. Suc i < length sequence \<and> j < L \<longrightarrow>
                 beta ! i ! j = (\<Sum>k<L. beta ! Suc i ! k * exp (tr j k + sc (sequence ! Suc i) k)))
           \<and> Z = (\<Sum>j<L. alpha ! (length sequence - 1) ! j)"
proof -
  from assms obtain pos0 rest where s: "sequence = pos0 # rest" by (cases sequence) auto
  define alpha0 where "alpha0 = map (\<lambda>j. exp (sc pos0 j)) [0..<L]"
  define alpha where "alpha = alpha0 # forward_pass sc tr L alpha0 rest"
  define beta where "beta = backward_pass sc tr L rest"
  define Z where "Z = foldl (\<lambda>sum val. sum + val) 0 (last alpha)"
  have fb: "forwardBackward_with sc tr L sequence = Inr (alpha, beta, Z)"
    by (simp add: forwardBackward_with_def s Let_def alpha_def alpha0_def beta_def Z_def)
  have la: "length alpha = length sequence"
    by (simp add: alpha_def s length_forward_pass)
  have lb: "length beta = length sequence"
    by (simp add: beta_def s length_backward_pass)
  have a0: "\<forall>j<L. alpha ! 0 ! j = exp (sc (sequence ! 0) j)"
    by (simp add: alpha_def alpha0_def s)
  have ai: "alpha ! i ! j = (\<Sum>k<L. alpha ! (i - 1) ! k * exp (tr k j + sc (sequence ! i) j))"
    if "0 < i \<and> i < length sequence \<and> j < L" for i j
  proof -
    from that obtain i' where i: "i = Suc i'" by (cases i) auto
    with that s have i': "i' < length rest" by simp
    have prev: "(if i' = 0 then alpha0 else forward_pass sc tr L alpha0 rest ! (i' - 1)) = alpha ! (i - 1)"
      using i by (cases i') (simp_all add: alpha_def)
    have "alpha ! i = forward_pass sc tr L alpha0 rest ! i'"
      by (simp add: alpha_def i)
    also have "\<dots> = map (\<lambda>j. loop_sum L (\<lambda>k. alpha ! (i - 1) ! k * exp (tr k j + sc (rest ! i') j))) [0..<L]"
      using forward_pass_nth [OF i', of sc tr L alpha0] by (simp only: prev)
    finally show ?thesis using that by (simp add: loop_sum_eq s i)
  qed
  have rowlen: "length (alpha ! i) = L" if "i < length sequence" for i
  proof (cases i)
    case 0
    then show ?thesis by (simp add: alpha_def alpha0_def)
  next
    case (Suc i')
    with that s have i': "i' < length rest" by simp
    from forward_pass_nth [OF i', of sc tr L alpha0] Suc show ?thesis
      by (simp add: alpha_def)
  qed
  have bl: "\<forall>j<L. beta ! (length sequence - 1) ! j = 1"
    by (simp add: beta_def s backward_pass_last)
  have bi: "beta ! i ! j = (\<Sum>k<L. beta ! Suc i ! k * exp (tr j k + sc (sequence ! Suc i) k))"
    if "Suc i < length sequence \<and> j < L" for i j
  proof -
    from that s have i: "i < length rest" by simp
    from backward_pass_nth [OF i, of sc tr L] that show ?thesis
      by (simp add: beta_def loop_sum_eq s)
  qed
  have "alpha \<noteq> []" by (simp add: alpha_def)
  then have "last alpha = alpha ! (length sequence - 1)"
    by (simp add: last_conv_nth la)
  moreover have "length (alpha ! (length sequence - 1)) = L"
    using assms by (intro rowlen) simp
  ultimately have z: "Z = (\<Sum>j<L. alpha ! (length sequence - 1) ! j)"
    by (simp add: Z_def reduce_sum_eq)
  from fb la lb a0 ai bl bi z show ?thesis by blast
qed

lemma tie_forwardBackward:
  "forwardBackward tie_crf [[''F1''], [''F2'']] = Inr ([[1, 1], [2, 2]], [[2, 2], [1, 1]], 4)"
  by (simp add: forwardBackward_def forwardBackward_with_def loop_sum_def tie_crf_def demo_crf_def new_CRF_def
     Let_def computeScore_def computeTransitionScore_def transitionFeature_def show_nat.simps
     numeral_2_eq_2 upt_rec)

text \<open>
  C6. On a sequence of length \<open>n \<ge> 1\<close> over \<open>L = numLabels\<close> labels \<open>_forwardBackward\<close>
  returns tables \<open>alpha\<close> and \<open>beta\<close> of \<open>n\<close> rows and a number \<open>Z\<close> with
  \<open>alpha[0][j] = exp(score(pos 0, j))\<close>,
  \<open>alpha[i][j] = \<Sum>k. alpha[i-1][k] * exp(transitionScore(k, j) + score(pos i, j))\<close> for
  \<open>i \<ge> 1\<close>, \<open>beta[n-1][j] = 1\<close>,
  \<open>beta[i][j] = \<Sum>k. beta[i+1][k] * exp(transitionScore(j, k) + score(pos (i+1), k))\<close> for
  \<open>i < n - 1\<close>, and \<open>Z = \<Sum>j. alpha[n-1][j]\<close>. (The recurrences name the rows \<open>0\<close> and
  \<open>n - 1\<close>; on the empty sequence the function throws.)
\<close>

theorem forwardBackward_recurrences:
  assumes "sequence \<noteq> []"
  shows "\<exists>alpha beta Z.
           forwardBackward c sequence = Inr (alpha, beta, Z)
           \<and> length alpha = length sequence \<and> length beta = length sequence
           \<and> (\<forall>j<numLabels c. alpha ! 0 ! j = exp (computeScore c (sequence ! 0) j))
           \<and> (\<forall>i j. 0 < i \<and> i < length sequence \<and> j < numLabels c \<longrightarrow>
                 alpha ! i ! j =
                   (\<Sum>k<numLabels c. alpha ! (i - 1) ! k
                      * exp (computeTransitionScore c k j + computeScore c (sequence ! i) j)))
           \<and> (\<forall>j<numLabels c. beta ! (length sequence - 1) ! j = 1)
           \<and> (\<forall>i j. Suc i < length sequence \<and> j < numLabels c \<longrightarrow>
                 beta ! i ! j =
                   (\<Sum>k<numLabels c. beta ! Suc i ! k
                      * exp (computeTransitionScore c j k + computeScore c (sequence ! Suc i) k)))
           \<and> Z = (\<Sum>j<numLabels c. alpha ! (length sequence - 1) ! j)"
  unfolding forwardBackward_def using assms by (rule forwardBackward_with_spec)

theorem forwardBackward_recurrences_witness:
  "[[''F1''], [''F2'']] \<noteq> []
   \<and> (\<exists>alpha beta Z. forwardBackward tie_crf [[''F1''], [''F2'']] = Inr (alpha, beta, Z)
         \<and> alpha = [[1, 1], [2, 2]] \<and> beta = [[2, 2], [1, 1]] \<and> Z = 4
         \<and> alpha ! 0 ! 1 = exp (computeScore tie_crf [''F1''] 1)
         \<and> alpha ! 1 ! 0 = (\<Sum>k<2. alpha ! 0 ! k
               * exp (computeTransitionScore tie_crf k 0 + computeScore tie_crf [''F2''] 0))
         \<and> beta ! 1 ! 0 = 1
         \<and> beta ! 0 ! 1 = (\<Sum>k<2. beta ! 1 ! k
               * exp (computeTransitionScore tie_crf 1 k + computeScore tie_crf [''F2''] k))
         \<and> Z = (\<Sum>j<2. alpha ! 1 ! j))"
proof -
  have ne: "[[''F1''], [''F2'']] \<noteq> ([] :: sequence)" by simp
  have L: "numLabels tie_crf = 2" by (simp add: tie_crf_def demo_crf_def)
  from forwardBackward_recurrences [OF ne, of tie_crf] obtain alpha beta Z where
    fb: "forwardBackward tie_crf [[''F1''], [''F2'']] = Inr (alpha, beta, Z)"
    and a0: "\<forall>j<2. alpha ! 0 ! j = exp (computeScore tie_crf ([[''F1''], [''F2'']] ! 0) j)"
    and ai: "\<forall>i j. 0 < i \<and> i < length [[''F1''], [''F2'']] \<and> j < 2 \<longrightarrow>
                 alpha ! i ! j =
                   (\<Sum>k<2. alpha ! (i - 1) ! k
                      * exp (computeTransitionScore tie_crf k j + computeScore tie_crf ([[''F1''], [''F2'']] ! i) j))"
    and bl: "\<forall>j<2. beta ! (length [[''F1''], [''F2'']] - 1) ! j = 1"
    and bi: "\<forall>i j. Suc i < length [[''F1''], [''F2'']] \<and> j < 2 \<longrightarrow>
                 beta ! i ! j =
                   (\<Sum>k<2. beta ! Suc i ! k
                      * exp (computeTransitionScore tie_crf j k + computeScore tie_crf ([[''F1''], [''F2'']] ! Suc i) k))"
    and z: "Z = (\<Sum>j<2. alpha ! (length [[''F1''], [''F2'']] - 1) ! j)"
    unfolding L by blast
  from fb tie_forwardBackward have v: "alpha = [[1, 1], [2, 2]]" "beta = [[2, 2], [1, 1]]" "Z = 4"
    by simp_all
  from a0 have w1: "alpha ! 0 ! 1 = exp (computeScore tie_crf [''F1''] 1)" by simp
  from ai [rule_format, of 1 0] have w2: "alpha ! 1 ! 0 = (\<Sum>k<2. alpha ! 0 ! k
               * exp (computeTransitionScore tie_crf k 0 + computeScore tie_crf [''F2''] 0))" by simp
  from bl have w3: "beta ! 1 ! 0 = 1" by simp
  from bi [rule_format, of 0 1] have w4: "beta ! 0 ! 1 = (\<Sum>k<2. beta ! 1 ! k
               * exp (computeTransitionScore tie_crf 1 k + computeScore tie_crf [''F2''] k))" by simp
  from z have w5: "Z = (\<Sum>j<2. alpha ! 1 ! j)" by simp
  from fb v w1 w2 w3 w4 w5 show ?thesis by blast
qed

section \<open>The training loop\<close>

lemma foldl_update_prefix:
  "k \<le> length g \<Longrightarrow>
   foldl (\<lambda>g j. g[j := F j (g ! j)]) g [0..<k] =
     map (\<lambda>j. if j < k then F j (g ! j) else g ! j) [0..<length g]"
proof (induction k)
  case 0
  then show ?case by (simp add: map_nth)
next
  case (Suc k)
  then have IH: "foldl (\<lambda>g j. g[j := F j (g ! j)]) g [0..<k] =
     map (\<lambda>j. if j < k then F j (g ! j) else g ! j) [0..<length g]" by simp
  show ?case
    using Suc.prems by (simp add: IH) (rule nth_equalityI, simp_all add: nth_list_update less_Suc_eq)
qed

lemma foldl_update_all:
  "foldl (\<lambda>g j. g[j := F j (g ! j)]) g [0..<length g] = map (\<lambda>j. F j (g ! j)) [0..<length g]"
  using foldl_update_prefix [of "length g" g F] by simp

lemma updateWeights_eq:
  "updateWeights c gradients w = map (\<lambda>j. w ! j + learningRate c * gradients ! j) [0..<length w]"
  using foldl_update_all [of "\<lambda>j x. x + learningRate c * gradients ! j" w]
  by (simp add: updateWeights_def)

lemma foldl_pair_split:
  fixes ll :: real
  shows "foldl (\<lambda>(ll, g) j. (ll - r j, g[j := F j (g ! j)])) (ll, g) js =
           (ll - sum_list (map r js), foldl (\<lambda>g j. g[j := F j (g ! j)]) g js)"
  by (induction js arbitrary: ll g) (simp_all add: algebra_simps)

lemma regularize_eq:
  assumes "length g = length w"
  shows "regularize c w (ll, g) =
           (ll - (\<Sum>j<length w. regularization c * w ! j * w ! j / 2),
            map (\<lambda>j. g ! j - regularization c * w ! j) [0..<length w])"
proof -
  have "regularize c w (ll, g) =
          (ll - sum_list (map (\<lambda>j. regularization c * w ! j * w ! j / 2) [0..<length w]),
           foldl (\<lambda>g j. g[j := g ! j - regularization c * w ! j]) g [0..<length w])"
    unfolding regularize_def
    using foldl_pair_split [of "\<lambda>j. regularization c * w ! j * w ! j / 2"
        "\<lambda>j x. x - regularization c * w ! j" ll g "[0..<length w]"]
    by simp
  moreover have "sum_list (map (\<lambda>j. regularization c * w ! j * w ! j / 2) [0..<length w])
                   = (\<Sum>j<length w. regularization c * w ! j * w ! j / 2)"
    by (simp add: interv_sum_list_conv_sum_set_nat lessThan_atLeast0)
  moreover have "foldl (\<lambda>g j. g[j := g ! j - regularization c * w ! j]) g [0..<length w]
                   = map (\<lambda>j. g ! j - regularization c * w ! j) [0..<length w]"
    using foldl_update_all [of "\<lambda>j x. x - regularization c * w ! j" g] assms by simp
  ultimately show ?thesis by simp
qed

lemma length_bump_features: "length (bump_features c features j d g) = length g"
proof -
  have "length (foldl (\<lambda>g feature. case map_of (featureMap c) feature of None \<Rightarrow> g
            | Some featureIdx \<Rightarrow> g[featureIdx * numLabels c + j := g ! (featureIdx * numLabels c + j) + d])
          g fs) = length g" for fs
    by (induction fs arbitrary: g) (simp_all split: option.splits)
  then show ?thesis by (simp add: bump_features_def)
qed

lemma length_foldl_preserving:
  assumes "\<And>g x. length (f g x) = length g"
  shows "length (foldl f g xs) = length g"
  using assms by (induction xs arbitrary: g) simp_all

lemma length_updateGradients:
  "length (updateGradients c sequence labels alpha beta Z g) = length g"
  unfolding updateGradients_def
  by (intro length_foldl_preserving) (simp add: Let_def length_bump_features length_foldl_preserving)

lemma length_sequence_gradients: "length (sequence_gradients c s l g) = length g"
  by (simp add: sequence_gradients_def length_updateGradients split: sum.splits)

lemma corpus_pass_eq:
  "length S \<le> length Ls \<Longrightarrow> list_all (\<lambda>s. s \<noteq> []) S \<Longrightarrow>
   corpus_pass c S Ls (ll, g) =
     Inr (ll + sum_list (map (\<lambda>(s, l). sequence_logLikelihood c s l) (zip S Ls)),
          foldl (\<lambda>g (s, l). sequence_gradients c s l g) g (zip S Ls))"
proof (induction S arbitrary: Ls ll g)
  case Nil
  then show ?case by simp
next
  case (Cons s S)
  then obtain l Ls' where Ls: "Ls = l # Ls'" by (cases Ls) auto
  from Cons.prems have "s \<noteq> []" by simp
  from forwardBackward_ok [OF this, of c] obtain a b Z where fb: "forwardBackward c s = Inr (a, b, Z)"
    by (metis prod_cases3)
  from Cons.prems Ls have "length S \<le> length Ls'" "list_all (\<lambda>s. s \<noteq> []) S" by simp_all
  from Cons.IH [OF this] show ?case
    by (simp add: Ls fb sequence_logLikelihood_def sequence_gradients_def add.assoc)
qed

lemma length_corpus_gradient:
  "length (foldl (\<lambda>g (s, l). sequence_gradients c s l g) g corpus) = length g"
  by (intro length_foldl_preserving) (simp add: length_sequence_gradients split: prod.splits)

lemma train_iteration_eq:
  assumes "well_shaped S Ls"
  shows "train_iteration c S Ls = Inr (iteration_result c S Ls)"
proof -
  let ?w = "the (weights c)"
  let ?g = "foldl (\<lambda>g (s, l). sequence_gradients c s l g) (replicate (length ?w) 0) (zip S Ls)"
  have len: "length ?g = length ?w" by (simp add: length_corpus_gradient)
  from assms have cp: "corpus_pass c S Ls (0, replicate (length ?w) 0) =
      Inr (0 + sum_list (map (\<lambda>(s, l). sequence_logLikelihood c s l) (zip S Ls)), ?g)"
    by (intro corpus_pass_eq) (rule well_shapedD, assumption)+
  show ?thesis
    by (simp add: train_iteration_def Let_def cp regularize_eq [OF len] updateWeights_eq
        iteration_result_def)
qed

lemma tolerance_iteration_result: "tolerance (fst (iteration_result c S Ls)) = tolerance c"
  by (simp add: iteration_result_def Let_def)

lemma tolerance_model_after: "tolerance (model_after t S Ls c) = tolerance c"
  by (induction t) (simp_all add: tolerance_iteration_result)

lemma train_loop_model_after:
  assumes "well_shaped S Ls"
  shows "\<exists>T. k \<le> T \<and> T \<le> k + n
           \<and> train_loop n (model_after k S Ls c0) S Ls
                (if k = 0 then None else Some (logLikelihood_at k S Ls c0))
               = Inr (model_after T S Ls c0)
           \<and> (\<forall>t. 2 \<le> t \<and> k < t \<and> t < T \<longrightarrow>
                 \<not> \<bar>logLikelihood_at t S Ls c0 - logLikelihood_at (t - 1) S Ls c0\<bar> < tolerance c0)
           \<and> (T = k + n \<or> 2 \<le> T \<and> k < T
                 \<and> \<bar>logLikelihood_at T S Ls c0 - logLikelihood_at (T - 1) S Ls c0\<bar> < tolerance c0)"
proof (induction n arbitrary: k)
  case 0
  show ?case by (intro exI [of _ k]) simp
next
  case (Suc n)
  let ?c = "model_after k S Ls c0"
  let ?prev = "if k = 0 then None else Some (logLikelihood_at k S Ls c0)"
  let ?c1 = "model_after (Suc k) S Ls c0"
  let ?ll = "logLikelihood_at (Suc k) S Ls c0"
  let ?stop = "\<lambda>t. \<bar>logLikelihood_at t S Ls c0 - logLikelihood_at (t - 1) S Ls c0\<bar> < tolerance c0"
  have ti: "train_iteration ?c S Ls = Inr (?c1, ?ll)"
    using train_iteration_eq [OF assms, of ?c] by (simp add: logLikelihood_at_def)
  have cv: "converged ?c1 ?ll ?prev = (k \<noteq> 0 \<and> ?stop (Suc k))"
    by (simp add: converged_def tolerance_iteration_result tolerance_model_after)
  show ?case
  proof (cases "converged ?c1 ?ll ?prev")
    case True
    then have "train_loop (Suc n) ?c S Ls ?prev = Inr ?c1"
      by (simp add: ti)
    moreover from True cv have "2 \<le> Suc k \<and> k < Suc k \<and> ?stop (Suc k)" by auto
    ultimately show ?thesis by (intro exI [of _ "Suc k"]) auto
  next
    case False
    from Suc.IH [of "Suc k"] obtain T where T: "Suc k \<le> T" "T \<le> Suc k + n"
      "train_loop n ?c1 S Ls (Some ?ll) = Inr (model_after T S Ls c0)"
      "\<forall>t. 2 \<le> t \<and> Suc k < t \<and> t < T \<longrightarrow> \<not> ?stop t"
      "T = Suc k + n \<or> 2 \<le> T \<and> Suc k < T \<and> ?stop T"
      by auto
    have a: "train_loop (Suc n) ?c S Ls ?prev = Inr (model_after T S Ls c0)"
      using False T(3) by (simp add: ti)
    have b: "\<not> ?stop t" if "2 \<le> t \<and> k < t \<and> t < T" for t
    proof (cases "t = Suc k")
      case True
      with that have "k \<noteq> 0" by simp
      with False cv True show ?thesis by simp
    next
      case False
      with that T(4) show ?thesis by simp
    qed
    from T(5) have c: "T = k + Suc n \<or> 2 \<le> T \<and> k < T \<and> ?stop T" by auto
    from T(1,2) a b c show ?thesis by (intro exI [of _ T]) auto
  qed
qed

lemma once_init:
  "initial_state once_crf [[[''F1''], [''F2'']]] [[''B'', ''I'']] =
     once_crf\<lparr>weights := Some [0, 0, 0, 0], featureMap := [(''F1'', 0), (''F2'', 1)],
               labelMap := [(''B'', 0), (''I'', 1)], numFeatures := 2, numLabels := 2\<rparr>"
  by (simp add: initial_state_def buildMappings_def once_crf_def new_CRF_def or_default_def
      Map_has_def Map_set_def Let_def numeral_2_eq_2)

lemma once_fb:
  "forwardBackward (once_crf\<lparr>weights := Some [0, 0, 0, 0], featureMap := [(''F1'', 0), (''F2'', 1)],
               labelMap := [(''B'', 0), (''I'', 1)], numFeatures := 2, numLabels := 2\<rparr>)
      [[''F1''], [''F2'']] = Inr ([[1, 1], [2, 2]], [[2, 2], [1, 1]], 4)"
  by (simp add: forwardBackward_def forwardBackward_with_def loop_sum_def once_crf_def new_CRF_def
     Let_def computeScore_def computeTransitionScore_def transitionFeature_def show_nat.simps
     numeral_2_eq_2 upt_rec)

lemma once_iteration:
  "iteration_result (once_crf\<lparr>weights := Some [0, 0, 0, 0], featureMap := [(''F1'', 0), (''F2'', 1)],
               labelMap := [(''B'', 0), (''I'', 1)], numFeatures := 2, numLabels := 2\<rparr>)
      [[[''F1''], [''F2'']]] [[''B'', ''I'']]
   = (once_crf\<lparr>weights := Some [1/4, -1/4, -1/4, 1/4], featureMap := [(''F1'', 0), (''F2'', 1)],
               labelMap := [(''B'', 0), (''I'', 1)], numFeatures := 2, numLabels := 2\<rparr>, - ln 4)"
  by (simp add: iteration_result_def sequence_logLikelihood_def sequence_gradients_def Let_def
      forwardBackward_def forwardBackward_with_def loop_sum_def
      updateGradients_def bump_features_def goldLabel_def computeSequenceLogLikelihood_def
      computeScore_def computeTransitionScore_def transitionFeature_def show_nat.simps
      once_crf_def new_CRF_def or_default_def numeral_2_eq_2 upt_rec lessThan_Suc)

lemma early_initial:
  "initial_state early_crf [[[''F1'']], [[''F2'']]] [[''B''], [''I'']] = early_init"
  by (simp add: initial_state_def buildMappings_def early_crf_def early_init_def new_CRF_def or_default_def
     Let_def Map_set_def Map_has_def)

lemma early_iteration_1:
  "iteration_result early_init [[[''F1'']], [[''F2'']]] [[''B''], [''I'']] = (early_first, - 2 * ln 2)"
  by (simp add: iteration_result_def sequence_logLikelihood_def sequence_gradients_def Let_def
      forwardBackward_def forwardBackward_with_def loop_sum_def
      updateGradients_def bump_features_def goldLabel_def computeSequenceLogLikelihood_def
      computeScore_def computeTransitionScore_def transitionFeature_def show_nat.simps
      early_init_def early_first_def
      early_crf_def new_CRF_def or_default_def numeral_2_eq_2 upt_rec lessThan_Suc)

lemma early_iteration_2:
  "iteration_result early_first [[[''F1'']], [[''F2'']]] [[''B''], [''I'']]
     = (early_second, 3/4 - ln (exp (1/2) + exp (- 1/2)) - ln (exp (- 1/2) + exp (1/2)))"
  apply (simp add: iteration_result_def sequence_logLikelihood_def sequence_gradients_def Let_def
      forwardBackward_def forwardBackward_with_def loop_sum_def
      updateGradients_def bump_features_def goldLabel_def computeSequenceLogLikelihood_def
      computeScore_def computeTransitionScore_def transitionFeature_def show_nat.simps
      early_init_def early_first_def early_second_def
      early_crf_def new_CRF_def or_default_def numeral_2_eq_2 upt_rec lessThan_Suc)
  done


lemma early_bound:
  "\<bar>(3/4 - ln (exp (1/2) + exp (- 1/2)) - ln (exp (- 1/2) + exp (1/2))) - (- 2 * ln 2 :: real)\<bar> < 1"
proof -
  define s :: real where "s = exp (1/2) + exp (- 1/2)"
  have a: "3/2 \<le> exp (1/2 :: real)" using exp_ge_add_one_self [of "1/2 :: real"] by simp
  have b: "1/2 \<le> exp (- 1/2 :: real)" using exp_ge_add_one_self [of "- 1/2 :: real"] by simp
  have ba: "exp (- 1/2 :: real) \<le> exp (1/2)" by simp
  from a b have "2 \<le> s" by (simp add: s_def)
  then have lo: "ln 2 \<le> ln s" by simp
  have "s \<le> 2 * exp (1/2)" using ba by (simp add: s_def)
  moreover have "0 < s" using \<open>2 \<le> s\<close> by simp
  ultimately have "ln s \<le> ln (2 * exp (1/2))" by simp
  also have "\<dots> = ln 2 + 1/2" by (simp add: ln_mult)
  finally have hi: "ln s \<le> ln 2 + 1/2" .
  have "exp (- 1/2) + exp (1/2) = s" by (simp add: s_def)
  then have "(3/4 - ln (exp (1/2) + exp (- 1/2)) - ln (exp (- 1/2) + exp (1/2))) - (- 2 * ln 2 :: real)
        = 3/4 - 2 * (ln s - ln 2)" by (simp add: s_def add.commute)
  with lo hi show ?thesis by simp
qed

text \<open>
  C5. On a corpus on which no step throws, \<open>train\<close> returns (\<open>Inr\<close>) the model reached
  after \<open>T\<close> iterations from the zero weights, where each iteration (\<open>iteration_result\<close>)
  processes the whole corpus into one gradient buffer under the weights of its start,
  takes \<open>regularization * weight\<close> off the gradient and \<open>regularization * weight^2 / 2\<close>
  off the log-likelihood for every weight, and updates every weight once by
  \<open>learningRate * gradient\<close>. The number \<open>T\<close> is at most the iteration cap; at no
  iteration \<open>t\<close> before \<open>T\<close> was \<open>|LL\<^sub>t - LL\<^sub>t\<^sub>-\<^sub>1| < tolerance\<close>; and either \<open>T\<close> is the cap,
  or \<open>|LL\<^sub>T - LL\<^sub>T\<^sub>-\<^sub>1| < tolerance\<close> (the early stop). There is no \<open>LL\<^sub>0\<close>, so the test
  starts with the second iteration. Reaching the cap without convergence is a normal
  return, not an error.
\<close>

theorem train_gradient_ascent:
  assumes "well_shaped sequences labels"
  shows "\<exists>T\<le>maxIterations c.
           CRF_train c sequences labels
             = Inr (model_after T sequences labels (initial_state c sequences labels))
           \<and> (\<forall>t. 2 \<le> t \<and> t < T \<longrightarrow>
                 \<not> \<bar>logLikelihood_at t sequences labels (initial_state c sequences labels)
                     - logLikelihood_at (t - 1) sequences labels (initial_state c sequences labels)\<bar>
                   < tolerance c)
           \<and> (T = maxIterations c
                \<or> 2 \<le> T
                  \<and> \<bar>logLikelihood_at T sequences labels (initial_state c sequences labels)
                      - logLikelihood_at (T - 1) sequences labels (initial_state c sequences labels)\<bar>
                    < tolerance c)"
proof -
  have m: "maxIterations (initial_state c sequences labels) = maxIterations c"
    "tolerance (initial_state c sequences labels) = tolerance c"
    by (simp_all add: initial_state_def Let_def buildMappings_eq)
  have "CRF_train c sequences labels =
          train_loop (maxIterations c) (initial_state c sequences labels) sequences labels None"
    by (simp add: CRF_train_def initial_state_def Let_def buildMappings_eq)
  with train_loop_model_after [OF assms, of 0 "maxIterations c" "initial_state c sequences labels"]
  show ?thesis by (auto simp: m)
qed

text \<open>
  The example: with tolerance 1 and a cap of 100 iterations, training on the corpus of
  \<open>F1\<close> labelled \<open>B\<close> and \<open>F2\<close> labelled \<open>I\<close> stops after the second iteration. The
  first iteration starts from the zero weights, where regularization changes nothing;
  the second starts from the weights \<open>1/2, -1/2, -1/2, 1/2\<close>, takes
  \<open>regularization * weight = 1/4\<close> off the size of each gradient and the penalty
  \<open>4 * (1/2 * (1/2)^2 / 2) = 1/4\<close> off the log-likelihood \<open>1 - 2 ln (e^(1/2) + e^(-1/2))\<close>.
\<close>

theorem train_gradient_ascent_witness:
  "well_shaped [[[''F1'']], [[''F2'']]] [[''B''], [''I'']]
   \<and> maxIterations early_crf = 100 \<and> tolerance early_crf = 1
   \<and> initial_state early_crf [[[''F1'']], [[''F2'']]] [[''B''], [''I'']] = early_init
   \<and> model_after 1 [[[''F1'']], [[''F2'']]] [[''B''], [''I'']] early_init = early_first
   \<and> logLikelihood_at 1 [[[''F1'']], [[''F2'']]] [[''B''], [''I'']] early_init = - 2 * ln 2
   \<and> model_after 2 [[[''F1'']], [[''F2'']]] [[''B''], [''I'']] early_init = early_second
   \<and> logLikelihood_at 2 [[[''F1'']], [[''F2'']]] [[''B''], [''I'']] early_init
       = 3/4 - ln (exp (1/2) + exp (- 1/2)) - ln (exp (- 1/2) + exp (1/2))
   \<and> \<bar>logLikelihood_at 2 [[[''F1'']], [[''F2'']]] [[''B''], [''I'']] early_init
        - logLikelihood_at 1 [[[''F1'']], [[''F2'']]] [[''B''], [''I'']] early_init\<bar> < 1
   \<and> CRF_train early_crf [[[''F1'']], [[''F2'']]] [[''B''], [''I'']] = Inr early_second"
proof -
  let ?S = "[[[''F1'']], [[''F2'']]]" and ?Ls = "[[''B''], [''I'']]"
  have ws: "well_shaped ?S ?Ls" by (simp add: well_shaped_def)
  have m: "maxIterations early_crf = 100" "tolerance early_crf = 1"
    by (simp_all add: early_crf_def new_CRF_def or_default_def)
  have m1: "model_after 1 ?S ?Ls early_init = early_first"
    by (simp add: early_iteration_1)
  have l1: "logLikelihood_at 1 ?S ?Ls early_init = - 2 * ln 2"
    by (simp add: logLikelihood_at_def early_iteration_1)
  have m2: "model_after 2 ?S ?Ls early_init = early_second"
    by (simp add: numeral_2_eq_2 early_iteration_1 early_iteration_2)
  have l2: "logLikelihood_at 2 ?S ?Ls early_init
       = 3/4 - ln (exp (1/2) + exp (- 1/2)) - ln (exp (- 1/2) + exp (1/2))"
    by (simp add: logLikelihood_at_def early_iteration_1 early_iteration_2)
  have stop: "\<bar>logLikelihood_at 2 ?S ?Ls early_init - logLikelihood_at 1 ?S ?Ls early_init\<bar> < 1"
    unfolding l1 l2 by (rule early_bound)
  from train_gradient_ascent [OF ws, of early_crf] obtain T where T: "T \<le> 100"
    "CRF_train early_crf ?S ?Ls = Inr (model_after T ?S ?Ls early_init)"
    "\<forall>t. 2 \<le> t \<and> t < T \<longrightarrow>
        \<not> \<bar>logLikelihood_at t ?S ?Ls early_init - logLikelihood_at (t - 1) ?S ?Ls early_init\<bar> < 1"
    "T = 100 \<or> 2 \<le> T"
    unfolding m early_initial by blast
  from T(3) [rule_format, of 2] stop have "\<not> 2 < T" by auto
  with T(4) have "T = 2" by auto
  with T(2) m2 have "CRF_train early_crf ?S ?Ls = Inr early_second" by simp
  with ws m early_initial m1 l1 m2 l2 stop show ?thesis by blast
qed

section \<open>Models without transition features\<close>

lemma CRF_train_featureMap:
  assumes "CRF_train c S Ls = Inr m"
  shows "fst ` set (featureMap m) = set (concat (concat S))"
proof -
  from CRF_train_shape [OF assms] obtain w where "m = (buildMappings c S Ls)\<lparr>weights := Some w\<rparr>"
    by blast
  then have "map fst (featureMap m) = first_seen (concat (concat S))"
    by (simp add: buildMappings_eq map_fst_dense_ids)
  then have "set (map fst (featureMap m)) = set (concat (concat S))"
    by (simp add: set_first_seen)
  then show ?thesis by simp
qed

lemma no_transition_score:
  assumes "CRF_train c S Ls = Inr m"
    and "\<forall>s\<in>set S. \<forall>p\<in>set s. \<forall>f\<in>set p. \<not> is_transition_name f"
  shows "computeTransitionScore m a b = 0"
proof -
  have "transitionFeature a b \<notin> set (concat (concat S))"
  proof
    assume "transitionFeature a b \<in> set (concat (concat S))"
    then obtain s p where "s \<in> set S" "p \<in> set s" "transitionFeature a b \<in> set p"
      by auto
    with assms(2) have "\<not> is_transition_name (transitionFeature a b)" by blast
    then show False by (auto simp: is_transition_name_def)
  qed
  then have "map_of (featureMap m) (transitionFeature a b) = None"
    by (simp add: map_of_eq_None_iff CRF_train_featureMap [OF assms(1)])
  then show ?thesis by (simp add: computeTransitionScore_def)
qed

lemma first_max_unique: "first_max f n b \<Longrightarrow> first_max f n b' \<Longrightarrow> b = b'"
  unfolding first_max_def by (meson order_antisym)

lemma first_max_cong:
  assumes "\<And>k k'. k < n \<Longrightarrow> k' < n \<Longrightarrow> (f k \<le> f k') = (g k \<le> g k')"
  shows "first_max f n b = first_max g n b"
proof -
  have eq: "(f k = f k') = (g k = g k')" if "k < n" "k' < n" for k k'
    using assms [OF that] assms [OF that(2) that(1)] by (auto simp: order_eq_iff)
  show ?thesis
    unfolding first_max_def using assms eq by (cases "b < n") auto
qed

lemma first_max_shift:
  fixes sc :: "nat \<Rightarrow> real"
  shows "first_max (\<lambda>k. Some (m + sc k + d)) n b = first_max (\<lambda>k. Some (sc k)) n b"
  by (rule first_max_cong) simp

lemma candidate_zero_tr:
  assumes "k < L"
  shows "candidate sc (\<lambda>k j. 0) (map (\<lambda>k. Some (m + sc p k)) [0..<L]) pos j k
           = Some (m + sc p k + sc pos j)"
  using assms by (simp add: candidate_def)

lemma best_prev_zero_tr:
  assumes "0 < L"
  shows "first_max (\<lambda>k. Some (sc p k)) L
           (snd (best_prev sc (\<lambda>k j. 0) L (map (\<lambda>k. Some (m + sc p k)) [0..<L]) pos j))
         \<and> fst (best_prev sc (\<lambda>k j. 0) L (map (\<lambda>k. Some (m + sc p k)) [0..<L]) pos j)
             = Some (m + sc p (snd (best_prev sc (\<lambda>k j. 0) L (map (\<lambda>k. Some (m + sc p k)) [0..<L]) pos j))
                      + sc pos j)"
proof -
  let ?prev = "map (\<lambda>k. Some (m + sc p k)) [0..<L]"
  let ?b = "snd (best_prev sc (\<lambda>k j. 0) L ?prev pos j)"
  from best_prev_first_max [OF assms, of sc "\<lambda>k j. 0" ?prev pos j]
  have fm: "first_max (candidate sc (\<lambda>k j. 0) ?prev pos j) L ?b"
    and v: "fst (best_prev sc (\<lambda>k j. 0) L ?prev pos j) = candidate sc (\<lambda>k j. 0) ?prev pos j ?b"
    by simp_all
  from fm have bL: "?b < L" by (simp add: first_max_def)
  have "first_max (candidate sc (\<lambda>k j. 0) ?prev pos j) L ?b
          = first_max (\<lambda>k. Some (m + sc p k + sc pos j)) L ?b"
    by (rule first_max_cong) (simp add: candidate_zero_tr)
  with fm have "first_max (\<lambda>k. Some (sc p k)) L ?b"
    by (simp add: first_max_shift)
  moreover from v bL have "fst (best_prev sc (\<lambda>k j. 0) L ?prev pos j) = Some (m + sc p ?b + sc pos j)"
    by (simp add: candidate_zero_tr)
  ultimately show ?thesis by simp
qed

lemma dp_row_zero_tr:
  assumes "0 < L" "i < length sequence"
  shows "\<exists>m. dp_table sc (\<lambda>k j. 0) L sequence ! i = map (\<lambda>j. Some (m + sc (sequence ! i) j)) [0..<L]"
  using assms(2)
proof (induction i)
  case 0
  then have "sequence \<noteq> []" by auto
  then have "hd sequence = sequence ! 0" by (simp add: hd_conv_nth)
  then have "dp_table sc (\<lambda>k j. 0) L sequence ! 0 = map (\<lambda>j. Some (0 + sc (sequence ! 0) j)) [0..<L]"
    by (simp add: dp_table_def Let_def)
  then show ?case by blast
next
  case (Suc i)
  then obtain m where m: "dp_table sc (\<lambda>k j. 0) L sequence ! i = map (\<lambda>j. Some (m + sc (sequence ! i) j)) [0..<L]"
    by auto
  let ?prev = "map (\<lambda>k. Some (m + sc (sequence ! i) k)) [0..<L]"
  let ?b = "\<lambda>j. snd (best_prev sc (\<lambda>k j. 0) L ?prev (sequence ! Suc i) j)"
  have same: "?b j = ?b 0" for j
    using best_prev_zero_tr [OF assms(1), of sc "sequence ! i" m "sequence ! Suc i"]
    by (blast intro: first_max_unique)
  have "dp_table sc (\<lambda>k j. 0) L sequence ! Suc i
          = map (\<lambda>j. fst (best_prev sc (\<lambda>k j. 0) L ?prev (sequence ! Suc i) j)) [0..<L]"
    using table_row(1) [of "Suc i" sequence sc "\<lambda>k j. 0" L] Suc.prems m by simp
  also have "\<dots> = map (\<lambda>j. Some (m + sc (sequence ! i) (?b j) + sc (sequence ! Suc i) j)) [0..<L]"
    using best_prev_zero_tr [OF assms(1), of sc "sequence ! i" m "sequence ! Suc i"] by simp
  also have "\<dots> = map (\<lambda>j. Some ((m + sc (sequence ! i) (?b 0)) + sc (sequence ! Suc i) j)) [0..<L]"
  proof (rule map_cong [OF refl])
    fix j
    show "Some (m + sc (sequence ! i) (?b j) + sc (sequence ! Suc i) j)
            = Some ((m + sc (sequence ! i) (?b 0)) + sc (sequence ! Suc i) j)"
      using same [of j] by simp
  qed
  finally show ?case by blast
qed

lemma path_zero_tr:
  assumes "0 < L" "Suc i < length sequence" "j < L"
  shows "first_max (\<lambda>k. Some (sc (sequence ! i) k)) L (path_table sc (\<lambda>k j. 0) L sequence ! Suc i ! j)"
proof -
  from assms(2) have "i < length sequence" by simp
  from dp_row_zero_tr [OF assms(1) this, of sc] obtain m where
    m: "dp_table sc (\<lambda>k j. 0) L sequence ! i = map (\<lambda>j. Some (m + sc (sequence ! i) j)) [0..<L]"
    by blast
  have "path_table sc (\<lambda>k j. 0) L sequence ! Suc i ! j
          = snd (best_prev sc (\<lambda>k j. 0) L (map (\<lambda>k. Some (m + sc (sequence ! i) k)) [0..<L])
                   (sequence ! Suc i) j)"
    using table_row(2) [of "Suc i" sequence sc "\<lambda>k j. 0" L] assms m by simp
  with best_prev_zero_tr [OF assms(1), of sc "sequence ! i" m "sequence ! Suc i" j]
  show ?thesis by simp
qed

lemma path_row_length:
  assumes "Suc i < length sequence"
  shows "length (path_table sc tr L sequence ! Suc i) = L"
  using table_row(2) [of "Suc i" sequence sc tr L] assms by simp

lemma final_zero_tr:
  assumes "0 < L" "sequence \<noteq> []"
  shows "first_max (\<lambda>j. Some (sc (sequence ! (length sequence - 1)) j)) L
           (best_final L (dp_table sc (\<lambda>k j. 0) L sequence ! (length sequence - 1)))"
proof -
  define e where "e = length sequence - 1"
  define row where "row = dp_table sc (\<lambda>k j. 0) L sequence ! e"
  from assms(2) have i: "e < length sequence" by (simp add: e_def)
  from dp_row_zero_tr [OF assms(1) i, of sc] obtain m where
    m: "row = map (\<lambda>j. Some (m + sc (sequence ! e) j)) [0..<L]" unfolding row_def by blast
  then have "length row = L" by simp
  from best_final_first_max [OF assms(1) this]
  have "first_max (\<lambda>j. row ! j) L (best_final L row)" .
  moreover have "first_max (\<lambda>j. row ! j) L (best_final L row)
        = first_max (\<lambda>j. Some (m + sc (sequence ! e) j + 0)) L (best_final L row)"
    by (rule first_max_cong) (simp add: m)
  ultimately have "first_max (\<lambda>j. Some (sc (sequence ! e) j)) L (best_final L row)"
    by (simp only: first_max_shift)
  then show ?thesis by (simp only: row_def e_def)
qed

lemma viterbi_zero_tr:
  assumes "0 < L" "i < length sequence"
  shows "\<exists>b. viterbi sc (\<lambda>k j. 0) L sequence ! i = Some b
             \<and> first_max (\<lambda>j. Some (sc (sequence ! i) j)) L b"
proof -
  let ?n = "length sequence"
  from assms(2) have ne: "sequence \<noteq> []" by auto
  have "\<forall>i. i < ?n \<and> ?n - 1 - i = d \<longrightarrow>
          (\<exists>b. viterbi sc (\<lambda>k j. 0) L sequence ! i = Some b
             \<and> first_max (\<lambda>j. Some (sc (sequence ! i) j)) L b)" for d
  proof (induction d)
    case 0
    show ?case
    proof (intro allI impI)
      fix i assume "i < ?n \<and> ?n - 1 - i = 0"
      then have i: "i = ?n - 1" by arith
      from viterbi_last [OF ne, of sc "\<lambda>k j. 0" L] final_zero_tr [OF assms(1) ne, of sc]
      show "\<exists>b. viterbi sc (\<lambda>k j. 0) L sequence ! i = Some b
             \<and> first_max (\<lambda>j. Some (sc (sequence ! i) j)) L b"
        unfolding i by blast
    qed
  next
    case (Suc d)
    show ?case
    proof (intro allI impI)
      fix i assume h: "i < ?n \<and> ?n - 1 - i = Suc d"
      then have si: "Suc i < ?n" and "?n - 1 - Suc i = d" by arith+
      with Suc.IH obtain r where r: "viterbi sc (\<lambda>k j. 0) L sequence ! Suc i = Some r"
        "first_max (\<lambda>j. Some (sc (sequence ! Suc i) j)) L r" by blast
      from r(2) have rL: "r < L" by (simp add: first_max_def)
      have "viterbi sc (\<lambda>k j. 0) L sequence ! i
              = Some (path_table sc (\<lambda>k j. 0) L sequence ! Suc i ! r)"
        using viterbi_step [OF si, of sc "\<lambda>k j. 0" L] r(1) rL path_row_length [OF si, of sc "\<lambda>k j. 0" L]
        by (simp add: elem_at_def)
      with path_zero_tr [OF assms(1) si rL, of sc]
      show "\<exists>b. viterbi sc (\<lambda>k j. 0) L sequence ! i = Some b
             \<and> first_max (\<lambda>j. Some (sc (sequence ! i) j)) L b"
        by blast
    qed
  qed
  with assms(2) show ?thesis by blast
qed

lemma fb_zero_tr_marginal:
  assumes fb: "forwardBackward_with sc (\<lambda>k j. 0) L sequence = Inr (alpha, beta, Z)"
    and i: "i < length sequence" and j: "j < L"
  shows "alpha ! i ! j * beta ! i ! j / Z
           = exp (sc (sequence ! i) j) / (\<Sum>k<L. exp (sc (sequence ! i) k))"
proof -
  define n where "n = length sequence"
  define E where "E t = (\<Sum>k<L. exp (sc (sequence ! t) k))" for t
  from i have ne: "sequence \<noteq> []" by auto
  from forwardBackward_with_spec [OF ne, of sc "\<lambda>k j. 0" L] fb have
    a0: "\<And>j. j < L \<Longrightarrow> alpha ! 0 ! j = exp (sc (sequence ! 0) j)"
    and ai: "\<And>i j. 0 < i \<Longrightarrow> i < n \<Longrightarrow> j < L \<Longrightarrow>
                 alpha ! i ! j = (\<Sum>k<L. alpha ! (i - 1) ! k * exp (0 + sc (sequence ! i) j))"
    and bl: "\<And>j. j < L \<Longrightarrow> beta ! (n - 1) ! j = 1"
    and bi: "\<And>i j. Suc i < n \<Longrightarrow> j < L \<Longrightarrow>
                 beta ! i ! j = (\<Sum>k<L. beta ! Suc i ! k * exp (0 + sc (sequence ! Suc i) k))"
    and z: "Z = (\<Sum>j<L. alpha ! (n - 1) ! j)"
    unfolding n_def by auto
  have Epos: "0 < E t" for t
    unfolding E_def using j by (intro sum_pos) auto
  have alpha: "\<forall>j<L. alpha ! t ! j = (\<Prod>s<t. E s) * exp (sc (sequence ! t) j)" if "t < n" for t
    using that
  proof (induction t)
    case 0
    then show ?case by (simp add: a0)
  next
    case (Suc t)
    then have IH: "\<And>k. k < L \<Longrightarrow> alpha ! t ! k = (\<Prod>s<t. E s) * exp (sc (sequence ! t) k)"
      by simp
    show ?case
    proof (intro allI impI)
      fix j assume jL: "j < L"
      have "alpha ! Suc t ! j = (\<Sum>k<L. alpha ! t ! k * exp (sc (sequence ! Suc t) j))"
        using ai [of "Suc t" j] Suc.prems jL by simp
      also have "\<dots> = (\<Sum>k<L. (\<Prod>s<t. E s) * exp (sc (sequence ! t) k)) * exp (sc (sequence ! Suc t) j)"
        by (simp add: IH sum_distrib_right)
      also have "\<dots> = ((\<Prod>s<t. E s) * E t) * exp (sc (sequence ! Suc t) j)"
        by (simp add: E_def sum_distrib_left)
      finally show "alpha ! Suc t ! j = (\<Prod>s<Suc t. E s) * exp (sc (sequence ! Suc t) j)"
        by simp
    qed
  qed
  have beta: "\<forall>t. t < n \<and> n - 1 - t = d \<longrightarrow> (\<forall>j<L. beta ! t ! j = (\<Prod>s\<in>{Suc t..<n}. E s))" for d
  proof (induction d)
    case 0
    show ?case
    proof (intro allI impI)
      fix t j assume "t < n \<and> n - 1 - t = 0" "j < L"
      then have "t = n - 1" "Suc t = n" by arith+
      with bl [OF \<open>j < L\<close>] show "beta ! t ! j = (\<Prod>s\<in>{Suc t..<n}. E s)" by simp
    qed
  next
    case (Suc d)
    show ?case
    proof (intro allI impI)
      fix t j assume h: "t < n \<and> n - 1 - t = Suc d" and jL: "j < L"
      then have st: "Suc t < n" and "n - 1 - Suc t = d" by arith+
      with Suc.IH have IH: "\<And>k. k < L \<Longrightarrow> beta ! Suc t ! k = (\<Prod>s\<in>{Suc (Suc t)..<n}. E s)"
        by simp
      have "beta ! t ! j = (\<Sum>k<L. beta ! Suc t ! k * exp (sc (sequence ! Suc t) k))"
        using bi [OF st jL] by simp
      also have "\<dots> = (\<Sum>k<L. (\<Prod>s\<in>{Suc (Suc t)..<n}. E s) * exp (sc (sequence ! Suc t) k))"
        by (simp add: IH)
      also have "\<dots> = (\<Prod>s\<in>{Suc (Suc t)..<n}. E s) * E (Suc t)"
        by (simp add: E_def sum_distrib_left)
      also have "\<dots> = (\<Prod>s\<in>{Suc t..<n}. E s)"
        using st by (simp add: prod.atLeast_Suc_lessThan)
      finally show "beta ! t ! j = (\<Prod>s\<in>{Suc t..<n}. E s)" .
    qed
  qed
  from i have n1: "n - 1 < n" by (simp add: n_def)
  have "Z = (\<Sum>j<L. (\<Prod>s<n - 1. E s) * exp (sc (sequence ! (n - 1)) j))"
    using alpha [OF n1] by (simp add: z)
  also have "\<dots> = (\<Prod>s<n - 1. E s) * E (n - 1)"
    by (simp add: E_def sum_distrib_left)
  also have "\<dots> = (\<Prod>s<Suc (n - 1). E s)" by simp
  also have "Suc (n - 1) = n" using n1 by simp
  finally have Z: "Z = (\<Prod>s<n. E s)" .
  have split: "(\<Prod>s<n. E s) = (\<Prod>s<i. E s) * (E i * (\<Prod>s\<in>{Suc i..<n}. E s))"
  proof -
    have "(\<Prod>s<n. E s) = (\<Prod>s\<in>{0..<i}. E s) * (\<Prod>s\<in>{i..<n}. E s)"
      using i by (simp add: lessThan_atLeast0 prod.atLeastLessThan_concat n_def)
    also have "(\<Prod>s\<in>{i..<n}. E s) = E i * (\<Prod>s\<in>{Suc i..<n}. E s)"
      using i by (simp add: prod.atLeast_Suc_lessThan n_def)
    finally show ?thesis by (simp add: lessThan_atLeast0)
  qed
  have P1: "(\<Prod>s<i. E s) \<noteq> 0" and P2: "(\<Prod>s\<in>{Suc i..<n}. E s) \<noteq> 0" and P3: "E i \<noteq> 0"
    using Epos by (simp_all add: less_imp_neq [THEN not_sym])
  have a: "alpha ! i ! j = (\<Prod>s<i. E s) * exp (sc (sequence ! i) j)"
    using alpha [of i] i j by (simp add: n_def)
  have b: "beta ! i ! j = (\<Prod>s\<in>{Suc i..<n}. E s)"
    using beta [of "n - 1 - i"] i j by (simp add: n_def)
  have "alpha ! i ! j * beta ! i ! j / Z = exp (sc (sequence ! i) j) / E i"
    unfolding a b Z split using P1 P2 P3 by (simp add: field_simps)
  then show ?thesis by (simp add: E_def)
qed

lemma length_labelNames: "consistent c \<Longrightarrow> length (labelNames c) = numLabels c"
proof -
  assume "consistent c"
  then have "map snd (labelMap c) = [0..<numLabels c]" by (simp add: consistent_def)
  then have "length (map snd (labelMap c)) = numLabels c" by simp
  then show ?thesis by (simp add: labelNames_def)
qed

lemma train_once:
  "CRF_train once_crf [[[''F1''], [''F2'']]] [[''B'', ''I'']] = Inr once_trained"
proof -
  let ?S = "[[[''F1''], [''F2'']]]" and ?Ls = "[[''B'', ''I'']]"
  define init where "init = initial_state once_crf ?S ?Ls"
  have ws: "well_shaped ?S ?Ls" by (simp add: well_shaped_def)
  have m: "maxIterations init = Suc 0"
    by (simp add: init_def initial_state_def Let_def buildMappings_eq once_crf_def new_CRF_def
        or_default_def)
  have "iteration_result init ?S ?Ls = (once_trained, - ln 4)"
    unfolding init_def once_init once_iteration once_trained_def ..
  then have ti: "train_iteration init ?S ?Ls = Inr (once_trained, - ln 4)"
    by (simp add: train_iteration_eq [OF ws])
  have "CRF_train once_crf ?S ?Ls = train_loop (maxIterations init) init ?S ?Ls None"
    by (simp add: CRF_train_def init_def initial_state_def Let_def)
  also have "\<dots> = Inr once_trained"
    by (simp add: m ti converged_def)
  finally show ?thesis .
qed

lemma once_predict: "predict once_trained [[''F2''], [''F1'']] = Inr [Some ''I'', Some ''B'']"
  by (simp add: predict_def decode_def viterbi_def dp_table_def path_table_def once_trained_def
     once_crf_def new_CRF_def or_default_def
     Let_def best_prev_def best_final_def scan_step_def final_step_def candidate_def computeScore_def
     computeTransitionScore_def transitionFeature_def show_nat.simps labelNames_def elem_at_def
     numeral_2_eq_2 upt_rec)

text \<open>
  C10. Let \<open>m\<close> be a model that \<open>train\<close> returned on a corpus none of whose active
  features has the form \<open>TRANS_<from>_<to>\<close>. The feature map of \<open>m\<close> holds exactly the
  features of the corpus, so no transition feature is in it and the transition score is
  0 for every pair of labels. Decoding and forward-backward then work position by
  position on the emission scores: at every position \<open>predict\<close> returns the label of
  lowest id among those with the greatest emission score at that position, and the
  marginal \<open>alpha[i][j] * beta[i][j] / Z\<close> is
  \<open>exp(score(pos i, j)) / \<Sum>k. exp(score(pos i, k))\<close>.
\<close>

theorem no_transition_features:
  assumes "CRF_train c sequences labels = Inr m"
    and "\<forall>s\<in>set sequences. \<forall>p\<in>set s. \<forall>f\<in>set p. \<not> is_transition_name f"
  shows "(\<forall>fromLabel toLabel. computeTransitionScore m fromLabel toLabel = 0)
         \<and> (\<forall>sequence i. 0 < numLabels m \<and> i < length sequence \<longrightarrow>
               (\<exists>result b. predict m sequence = Inr result
                   \<and> result ! i = Some (labelNames m ! b)
                   \<and> first_max (\<lambda>j. Some (computeScore m (sequence ! i) j)) (numLabels m) b))
         \<and> (\<forall>sequence alpha beta Z i j.
               forwardBackward m sequence = Inr (alpha, beta, Z) \<and> i < length sequence
               \<and> j < numLabels m \<longrightarrow>
               alpha ! i ! j * beta ! i ! j / Z
                 = exp (computeScore m (sequence ! i) j)
                     / (\<Sum>k<numLabels m. exp (computeScore m (sequence ! i) k)))"
proof (intro conjI allI impI)
  fix a b show "computeTransitionScore m a b = 0"
    using assms by (rule no_transition_score)
next
  have tr: "computeTransitionScore m = (\<lambda>k j. 0)"
    using no_transition_score [OF assms] by (intro ext)
  fix sequence :: sequence and i
  assume h: "0 < numLabels m \<and> i < length sequence"
  from CRF_train_consistent [OF assms(1)] have cons: "consistent m" .
  then have w: "weights m \<noteq> None" by (auto simp: consistent_def split: option.splits)
  let ?v = "viterbi (computeScore m) (computeTransitionScore m) (numLabels m) sequence"
  from h viterbi_zero_tr [of "numLabels m" i sequence "computeScore m"] obtain b where
    b: "?v ! i = Some b" "first_max (\<lambda>j. Some (computeScore m (sequence ! i) j)) (numLabels m) b"
    unfolding tr by blast
  from b(2) have bL: "b < numLabels m" by (simp add: first_max_def)
  from h have ne: "sequence \<noteq> []" by auto
  have p: "predict m sequence = Inr (map (\<lambda>idx. Option.bind idx (elem_at (labelNames m))) ?v)"
    using w ne by (simp add: predict_def decode_def)
  have "map (\<lambda>idx. Option.bind idx (elem_at (labelNames m))) ?v ! i = Some (labelNames m ! b)"
    using h b(1) bL length_labelNames [OF cons] length_viterbi [OF ne, of "computeScore m"
        "computeTransitionScore m" "numLabels m"]
    by (simp add: elem_at_def)
  with p b(2)
  show "\<exists>result b. predict m sequence = Inr result
                   \<and> result ! i = Some (labelNames m ! b)
                   \<and> first_max (\<lambda>j. Some (computeScore m (sequence ! i) j)) (numLabels m) b"
    by blast
next
  have tr: "computeTransitionScore m = (\<lambda>k j. 0)"
    using no_transition_score [OF assms] by (intro ext)
  fix sequence alpha beta Z i j
  assume "forwardBackward m sequence = Inr (alpha, beta, Z) \<and> i < length sequence \<and> j < numLabels m"
  then show "alpha ! i ! j * beta ! i ! j / Z
                 = exp (computeScore m (sequence ! i) j)
                     / (\<Sum>k<numLabels m. exp (computeScore m (sequence ! i) k))"
    unfolding forwardBackward_def tr by (intro fb_zero_tr_marginal) simp_all
qed

theorem no_transition_features_witness:
  "CRF_train once_crf [[[''F1''], [''F2'']]] [[''B'', ''I'']] = Inr once_trained
   \<and> \<not> is_transition_name ''F1'' \<and> \<not> is_transition_name ''F2''
   \<and> computeTransitionScore once_trained 0 1 = 0
   \<and> 0 < numLabels once_trained
   \<and> predict once_trained [[''F2''], [''F1'']] = Inr [Some ''I'', Some ''B'']
   \<and> (\<exists>b. [Some ''I'', Some ''B''] ! 0 = Some (labelNames once_trained ! b)
          \<and> first_max (\<lambda>j. Some (computeScore once_trained [''F2''] j)) (numLabels once_trained) b)"
proof -
  have n1: "\<not> is_transition_name ''F1''" and n2: "\<not> is_transition_name ''F2''"
    by (simp_all add: is_transition_name_def transitionFeature_def)
  then have nt: "\<forall>s\<in>set [[[''F1''], [''F2'']]]. \<forall>p\<in>set s. \<forall>f\<in>set p. \<not> is_transition_name f"
    by simp
  have L: "0 < numLabels once_trained" by (simp add: once_trained_def)
  note t = no_transition_features [OF train_once nt]
  from t have a: "computeTransitionScore once_trained 0 1 = 0" by blast
  have "\<exists>result b. predict once_trained [[''F2''], [''F1'']] = Inr result
                   \<and> result ! 0 = Some (labelNames once_trained ! b)
                   \<and> first_max (\<lambda>j. Some (computeScore once_trained ([[''F2''], [''F1'']] ! 0) j))
                        (numLabels once_trained) b"
    using L by (intro t [THEN conjunct2, THEN conjunct1, rule_format]) simp
  then have b: "\<exists>b. [Some ''I'', Some ''B''] ! 0 = Some (labelNames once_trained ! b)
          \<and> first_max (\<lambda>j. Some (computeScore once_trained [''F2''] j)) (numLabels once_trained) b"
    by (simp add: once_predict)
  from train_once n1 n2 a L once_predict b show ?thesis by blast
qed

section \<open>Training samples that do not fit\<close>

lemma prefix_append_drop:
  "prefix (xs @ ys) zs \<longleftrightarrow> prefix xs zs \<and> prefix ys (drop (length xs) zs)"
proof
  assume "prefix (xs @ ys) zs"
  then obtain r where "zs = xs @ ys @ r" by (auto simp: prefix_def)
  then show "prefix xs zs \<and> prefix ys (drop (length xs) zs)" by simp
next
  assume "prefix xs zs \<and> prefix ys (drop (length xs) zs)"
  then obtain r r' where "zs = xs @ r" "drop (length xs) zs = ys @ r'" by (auto simp: prefix_def)
  then have "zs = xs @ ys @ r'" by simp
  then show "prefix (xs @ ys) zs" by simp
qed

lemma prefix_Cons_drop:
  "prefix (x # xs) (drop i zs) \<longleftrightarrow> i < length zs \<and> zs ! i = x \<and> prefix xs (drop (Suc i) zs)"
proof (cases "i < length zs")
  case True
  then have "drop i zs = zs ! i # drop (Suc i) zs" by (simp add: Cons_nth_drop_Suc)
  with True show ?thesis by auto
next
  case False
  then show ?thesis by simp
qed

lemma marks_Suc: "marks j (Suc n) = (if j = 0 then ''B'' else ''I'') # marks (Suc j) n"
  by (simp add: marks_def upt_rec)

lemma marks_0_eq: "marks 0 n = (case n of 0 \<Rightarrow> [] | Suc k \<Rightarrow> ''B'' # replicate k ''I'')"
proof (cases n)
  case 0
  then show ?thesis by (simp add: marks_def)
next
  case (Suc k)
  have "marks (Suc j) k = replicate k ''I''" for j
    by (induction k arbitrary: j) (simp_all add: marks_Suc, simp add: marks_def)
  with Suc show ?thesis by (simp add: marks_Suc)
qed

lemma label_syllable_Inr:
  "prefix scs (drop idx chars) \<Longrightarrow>
   label_syllable chars scs j (labels, idx) = Inr (labels @ marks j (length scs), idx + length scs)"
proof (induction scs arbitrary: j labels idx)
  case Nil
  then show ?case by (simp add: marks_def)
next
  case (Cons sc scs)
  from Cons.prems have "idx < length chars" "chars ! idx = sc" "prefix scs (drop (Suc idx) chars)"
    by (simp_all add: prefix_Cons_drop)
  with Cons.IH [of "Suc idx" "Suc j" "labels @ [if j = 0 then ''B'' else ''I'']"]
  show ?case by (simp add: marks_Suc)
qed

lemma label_syllable_Inl:
  "\<not> prefix scs (drop idx chars) \<Longrightarrow> isl (label_syllable chars scs j (labels, idx))"
proof (induction scs arbitrary: j labels idx)
  case Nil
  then show ?case by simp
next
  case (Cons sc scs)
  show ?case
  proof (cases "idx < length chars \<and> chars ! idx = sc")
    case True
    with Cons.prems have "\<not> prefix scs (drop (Suc idx) chars)"
      by (simp add: prefix_Cons_drop)
    from Cons.IH [OF this] True show ?thesis by simp
  next
    case False
    then show ?thesis by auto
  qed
qed

lemma label_syllables_Inr:
  "prefix (concat (map splitToCharacters syllables)) (drop idx chars) \<Longrightarrow>
   label_syllables chars syllables (labels, idx) =
     Inr (labels @ concat (map syllable_labels syllables),
          idx + length (concat (map splitToCharacters syllables)))"
proof (induction syllables arbitrary: labels idx)
  case Nil
  then show ?case by simp
next
  case (Cons s syllables)
  let ?cs = "splitToCharacters s"
  from Cons.prems have p1: "prefix ?cs (drop idx chars)"
    and p2: "prefix (concat (map splitToCharacters syllables)) (drop (idx + length ?cs) chars)"
    by (simp_all add: prefix_append_drop add.commute)
  have sl: "marks 0 (length ?cs) = syllable_labels s"
    by (cases ?cs) (simp_all add: marks_0_eq syllable_labels_def)
  from label_syllable_Inr [OF p1, of 0 labels] Cons.IH [OF p2, of "labels @ marks 0 (length ?cs)"]
  show ?case by (simp add: sl add.assoc)
qed

lemma label_syllables_Inl:
  "\<not> prefix (concat (map splitToCharacters syllables)) (drop idx chars) \<Longrightarrow>
   isl (label_syllables chars syllables (labels, idx))"
proof (induction syllables arbitrary: labels idx)
  case Nil
  then show ?case by simp
next
  case (Cons s syllables)
  let ?cs = "splitToCharacters s"
  show ?case
  proof (cases "prefix ?cs (drop idx chars)")
    case True
    with Cons.prems have "\<not> prefix (concat (map splitToCharacters syllables)) (drop (idx + length ?cs) chars)"
      by (simp add: prefix_append_drop add.commute)
    from Cons.IH [OF this] label_syllable_Inr [OF True, of 0 labels] show ?thesis by simp
  next
    case False
    from label_syllable_Inl [OF this, of 0 labels] show ?thesis
      by (cases "label_syllable chars ?cs 0 (labels, idx)") simp_all
  qed
qed

lemma syllablesToLabels_Inr:
  "prefix (concat (map splitToCharacters syllables)) chars \<Longrightarrow>
   syllablesToLabels chars syllables =
     Inr (concat (map syllable_labels syllables)
          @ replicate (length chars - length (concat (map splitToCharacters syllables))) ''I'')"
  using label_syllables_Inr [of syllables 0 chars "[]"]
  by (simp add: syllablesToLabels_def)

lemma syllablesToLabels_isl:
  "\<not> prefix (concat (map splitToCharacters syllables)) chars \<Longrightarrow>
   isl (syllablesToLabels chars syllables)"
  using label_syllables_Inl [of syllables 0 chars "[]"]
  by (cases "label_syllables chars syllables ([], 0)") (simp_all add: syllablesToLabels_def)

lemma length_syllable_labels: "length (syllable_labels s) = length (splitToCharacters s)"
  by (cases "splitToCharacters s") (simp_all add: syllable_labels_def)

lemma length_concat_syllable_labels:
  "length (concat (map syllable_labels syllables)) = length (concat (map splitToCharacters syllables))"
  by (induction syllables) (simp_all add: length_syllable_labels)

lemma prepareTrainingSample_eq:
  "prepareTrainingSample nfc extractFeatures text syllables =
     (let chars = splitToCharacters (normalize_text nfc (normalize_text nfc text))
      in if prefix (concat (map splitToCharacters syllables)) chars
         then Some (map (extractFeatures chars) [0..<length chars], chars,
                    concat (map syllable_labels syllables)
                    @ replicate (length chars - length (concat (map splitToCharacters syllables))) ''I'')
         else None)"
proof -
  let ?chars = "splitToCharacters (normalize_text nfc (normalize_text nfc text))"
  show ?thesis
  proof (cases "prefix (concat (map splitToCharacters syllables)) ?chars")
    case True
    then have "length (concat (map splitToCharacters syllables)) \<le> length ?chars"
      by (rule prefix_length_le)
    with True syllablesToLabels_Inr [of syllables ?chars] show ?thesis
      by (simp add: prepareTrainingSample_def extractSequenceFeatures_def Let_def
          length_concat_syllable_labels)
  next
    case False
    from syllablesToLabels_isl [OF this] False show ?thesis
      by (cases "syllablesToLabels ?chars syllables")
         (simp_all add: prepareTrainingSample_def extractSequenceFeatures_def Let_def)
  qed
qed

lemma foldl_collect_sample:
  "foldl (collect_sample nfc ex) (sequences, labels) data =
     (sequences @ map fst (prepared nfc ex data), labels @ map (\<lambda>p. snd (snd p)) (prepared nfc ex data))"
proof (induction data arbitrary: sequences labels)
  case Nil
  then show ?case by (simp add: prepared_def map_filter_simps)
next
  case (Cons sample data)
  show ?case
  proof (cases "prepareTrainingSample nfc ex (fst sample) (snd sample)")
    case None
    with Cons show ?thesis by (simp add: collect_sample_def prepared_def map_filter_simps)
  next
    case (Some r)
    obtain features chars labelSeq where r: "r = (features, chars, labelSeq)" by (cases r)
    with Some Cons show ?thesis by (simp add: collect_sample_def prepared_def map_filter_simps)
  qed
qed

lemma Segmenter_train_eq:
  "Segmenter_train nfc ex seg data =
     (if prepared nfc ex data = [] then Inl NoValidTrainingSamples
      else case CRF_train (seg_crf seg) (map fst (prepared nfc ex data))
                  (map (\<lambda>p. snd (snd p)) (prepared nfc ex data)) of
             Inl e \<Rightarrow> Inl e
           | Inr c \<Rightarrow> Inr (seg\<lparr>seg_crf := c, isModelLoaded := True\<rparr>))"
  by (simp add: Segmenter_train_def foldl_collect_sample)

lemma corpus_pass_error: "corpus_pass c S Ls acc = Inl e \<Longrightarrow> e = TypeError"
proof (induction S arbitrary: Ls acc)
  case Nil
  then show ?case by simp
next
  case (Cons s S)
  obtain ll g where acc: "acc = (ll, g)" by (cases acc)
  from Cons show ?case
    by (auto simp: acc forwardBackward_def forwardBackward_with_def Let_def
        split: sum.splits list.splits prod.splits)
qed

lemma train_loop_error: "train_loop n c S Ls prev = Inl e \<Longrightarrow> e = TypeError"
proof (induction n arbitrary: c prev)
  case 0
  then show ?case by simp
next
  case (Suc n)
  then show ?case
    by (auto simp: train_iteration_def Let_def dest: corpus_pass_error
        split: sum.splits prod.splits if_splits)
qed

lemma CRF_train_error: "CRF_train c S Ls = Inl e \<Longrightarrow> e = TypeError"
  by (auto simp: CRF_train_def Let_def dest: train_loop_error)

lemma split_ab: "splitToCharacters [97, 98] = [[97], [98]]"
  "splitToCharacters [97] = [[97]]" "splitToCharacters [98] = [[98]]"
  by (simp_all add: isCombiningMark_def)

lemma normalize_ab: "normalize_text ascii_nfc [97, 98] = [97, 98]"
  by (simp add: normalize_text_def ascii_nfc_def zero_width_def)

lemma prepare_mismatch:
  "prepareTrainingSample ascii_nfc position_feature [97, 98] [[98]] = None"
  by (simp add: prepareTrainingSample_eq normalize_ab split_ab isCombiningMark_def Let_def)

lemma prepare_good:
  "prepareTrainingSample ascii_nfc position_feature [97, 98] [[97], [98]]
     = Some ([[''POSITION=0''], [''POSITION=1'']], [[97], [98]], [''B'', ''B''])"
  by (simp add: prepareTrainingSample_eq normalize_ab split_ab isCombiningMark_def Let_def syllable_labels_def
      position_feature_def show_nat.simps upt_rec numeral_2_eq_2)

lemma prepare_padded:
  "prepareTrainingSample ascii_nfc position_feature [97, 98] [[97]]
     = Some ([[''POSITION=0''], [''POSITION=1'']], [[97], [98]], [''B'', ''I''])"
  by (simp add: prepareTrainingSample_eq normalize_ab split_ab isCombiningMark_def Let_def syllable_labels_def
      position_feature_def show_nat.simps upt_rec numeral_2_eq_2)

text \<open>
  C2, as stated: \<open>train\<close> fails whenever one example has feature and label sequences
  of different lengths, and never drops or pads such an example. In the code the
  syllables \<open>["b"]\<close> for the text \<open>"ab"\<close> give no label sequence for the two characters
  (\<open>_syllablesToLabels\<close> throws, \<open>_prepareTrainingSample\<close> catches and returns nulls), and
  \<open>train\<close> on this example followed by a good one does not fail: it drops the first and
  returns what training on the good one alone returns. The syllables \<open>["a"]\<close> for
  \<open>"ab"\<close> label one character of two; the label sequence is padded with \<open>I\<close> and
  training goes on.
\<close>

theorem Segmenter_train_mismatch_counterexample:
  "syllablesToLabels (splitToCharacters [97, 98]) [[98]] = Inl CharacterMismatch
   \<and> prepareTrainingSample ascii_nfc position_feature [97, 98] [[98]] = None
   \<and> \<not> isl (Segmenter_train ascii_nfc position_feature (new_Segmenter default_options)
               [([97, 98], [[98]]), ([97, 98], [[97], [98]])])
   \<and> Segmenter_train ascii_nfc position_feature (new_Segmenter default_options)
        [([97, 98], [[98]]), ([97, 98], [[97], [98]])]
       = Segmenter_train ascii_nfc position_feature (new_Segmenter default_options)
           [([97, 98], [[97], [98]])]
   \<and> prepareTrainingSample ascii_nfc position_feature [97, 98] [[97]]
       = Some ([[''POSITION=0''], [''POSITION=1'']], [[97], [98]], [''B'', ''I''])
   \<and> \<not> isl (Segmenter_train ascii_nfc position_feature (new_Segmenter default_options)
               [([97, 98], [[97]])])"
proof -
  let ?seg = "new_Segmenter default_options"
  have p2: "prepared ascii_nfc position_feature [([97, 98], [[98]]), ([97, 98], [[97], [98]])]
          = [([[''POSITION=0''], [''POSITION=1'']], [[97], [98]], [''B'', ''B''])]"
    by (simp add: prepared_def prepare_mismatch prepare_good)
  have p1: "prepared ascii_nfc position_feature [([97, 98], [[97], [98]])]
          = [([[''POSITION=0''], [''POSITION=1'']], [[97], [98]], [''B'', ''B''])]"
    by (simp add: prepared_def prepare_good)
  have p3: "prepared ascii_nfc position_feature [([97, 98], [[97]])]
          = [([[''POSITION=0''], [''POSITION=1'']], [[97], [98]], [''B'', ''I''])]"
    by (simp add: prepared_def prepare_padded)
  have "well_shaped [[[''POSITION=0''], [''POSITION=1'']]] [[''B'', ''B'']]"
    by (simp add: well_shaped_def)
  from CRF_train_ok [OF this, of "seg_crf ?seg"] obtain c where
    c: "CRF_train (seg_crf ?seg) [[[''POSITION=0''], [''POSITION=1'']]] [[''B'', ''B'']] = Inr c"
    by blast
  have "well_shaped [[[''POSITION=0''], [''POSITION=1'']]] [[''B'', ''I'']]"
    by (simp add: well_shaped_def)
  from CRF_train_ok [OF this, of "seg_crf ?seg"] obtain c' where
    c': "CRF_train (seg_crf ?seg) [[[''POSITION=0''], [''POSITION=1'']]] [[''B'', ''I'']] = Inr c'"
    by blast
  have a: "syllablesToLabels (splitToCharacters [97, 98]) [[98]] = Inl CharacterMismatch"
    by (simp add: syllablesToLabels_def split_ab isCombiningMark_def)
  have b: "\<not> isl (Segmenter_train ascii_nfc position_feature ?seg
               [([97, 98], [[98]]), ([97, 98], [[97], [98]])])"
    by (simp add: Segmenter_train_eq p2 c)
  have d: "Segmenter_train ascii_nfc position_feature ?seg
        [([97, 98], [[98]]), ([97, 98], [[97], [98]])]
       = Segmenter_train ascii_nfc position_feature ?seg [([97, 98], [[97], [98]])]"
    by (simp add: Segmenter_train_eq p1 p2)
  have e: "\<not> isl (Segmenter_train ascii_nfc position_feature ?seg [([97, 98], [[97]])])"
    by (simp add: Segmenter_train_eq p3 c')
  from a prepare_mismatch b d prepare_padded e show ?thesis by blast
qed

text \<open>
  C2, amended. \<open>train\<close> fails on the empty list of examples, and in general it fails with
  \<open>No valid training samples found\<close> exactly when no example survives the preparation.
  An example survives exactly when the characters of its syllables are a prefix of the
  characters of its (normalised) text; its label sequence is then the labels of the
  syllables, padded with \<open>I\<close> to the length of the text. An example that does not
  survive is dropped, and the CRF is trained on the surviving ones.
\<close>

theorem Segmenter_train_drops_unusable:
  "Segmenter_train nfc extractFeatures seg [] = Inl NoValidTrainingSamples
   \<and> Segmenter_train nfc extractFeatures seg trainingData =
       (if prepared nfc extractFeatures trainingData = [] then Inl NoValidTrainingSamples
        else case CRF_train (seg_crf seg) (map fst (prepared nfc extractFeatures trainingData))
                    (map (\<lambda>p. snd (snd p)) (prepared nfc extractFeatures trainingData)) of
               Inl e \<Rightarrow> Inl e
             | Inr c \<Rightarrow> Inr (seg\<lparr>seg_crf := c, isModelLoaded := True\<rparr>))
   \<and> (Segmenter_train nfc extractFeatures seg trainingData = Inl NoValidTrainingSamples)
       = (prepared nfc extractFeatures trainingData = [])
   \<and> prepareTrainingSample nfc extractFeatures text syllables =
       (let chars = splitToCharacters (normalize_text nfc (normalize_text nfc text))
        in if prefix (concat (map splitToCharacters syllables)) chars
           then Some (map (extractFeatures chars) [0..<length chars], chars,
                      concat (map syllable_labels syllables)
                      @ replicate (length chars - length (concat (map splitToCharacters syllables))) ''I'')
           else None)"
proof (intro conjI)
  show "Segmenter_train nfc extractFeatures seg [] = Inl NoValidTrainingSamples"
    by (simp add: Segmenter_train_def)
  show "Segmenter_train nfc extractFeatures seg trainingData =
       (if prepared nfc extractFeatures trainingData = [] then Inl NoValidTrainingSamples
        else case CRF_train (seg_crf seg) (map fst (prepared nfc extractFeatures trainingData))
                    (map (\<lambda>p. snd (snd p)) (prepared nfc extractFeatures trainingData)) of
               Inl e \<Rightarrow> Inl e
             | Inr c \<Rightarrow> Inr (seg\<lparr>seg_crf := c, isModelLoaded := True\<rparr>))"
    by (rule Segmenter_train_eq)
  show "(Segmenter_train nfc extractFeatures seg trainingData = Inl NoValidTrainingSamples)
       = (prepared nfc extractFeatures trainingData = [])"
    by (auto simp: Segmenter_train_eq dest: CRF_train_error split: sum.splits)
  show "prepareTrainingSample nfc extractFeatures text syllables =
       (let chars = splitToCharacters (normalize_text nfc (normalize_text nfc text))
        in if prefix (concat (map splitToCharacters syllables)) chars
           then Some (map (extractFeatures chars) [0..<length chars], chars,
                      concat (map syllable_labels syllables)
                      @ replicate (length chars - length (concat (map splitToCharacters syllables))) ''I'')
           else None)"
    by (rule prepareTrainingSample_eq)
qed

end
